theory Spec2Isabelle
  imports Complex_Main "HOL-Library.Signed_Division" "HOL-Library.Monad_Syntax"
begin

section \<open>RECURSUM: layered recurrence evaluators for Hermite-E and Coulomb-R\<close>

text \<open>
  The development embeds the following parts of the repository:
  \<^item> \<^verbatim>\<open>include/recursum/mcmd/hermite_e.hpp\<close>: the per-value recursion \<^verbatim>\<open>HermiteE<nA,nB,t>\<close>;
  \<^item> \<^verbatim>\<open>include/recursum/mcmd/hermite_e_layered.hpp\<close>: \<^verbatim>\<open>HermiteELayer<nA,nB>\<close>;
  \<^item> \<^verbatim>\<open>include/recursum/generated/hermite_coeff_layered.hpp\<close>: \<^verbatim>\<open>HermiteECoeffLayer<nA,nB>\<close>;
  \<^item> \<^verbatim>\<open>include/recursum/mcmd/hermite_grad.hpp\<close>: the derivative templates;
  \<^item> \<^verbatim>\<open>include/recursum/mcmd/coulomb_aux.hpp\<close>: the per-value recursion \<^verbatim>\<open>CoulombR<t,u,v,N>\<close>;
  \<^item> \<^verbatim>\<open>include/recursum/mcmd/coulomb_r_layered.hpp\<close>: the index scheme and \<^verbatim>\<open>CoulombRLayer<L_total>\<close>.

  Conventions.
  \<^item> A \<^verbatim>\<open>Vec8d\<close> holds eight independent lanes on which every operation acts lane by lane;
    one lane is modelled, in exact arithmetic, as a \<^typ>\<open>real\<close>. Rounding is not modelled.
  \<^item> C++ \<^verbatim>\<open>int\<close> values (template arguments, loop counters, offsets) are \<^typ>\<open>int\<close>; the
    quotient \<^verbatim>\<open>/\<close> on \<^verbatim>\<open>int\<close> truncates towards zero and is written \<open>sdiv\<close>. Lemma
    \<open>index_arithmetic_fits_int32\<close> shows that the products formed for the supported range stay
    far below \<open>2^31\<close>, so wrap-around never occurs there.
  \<^item> An array (\<^verbatim>\<open>std::array\<close>, a C array, or the table behind a pointer) is a list; every
    subscript goes through \<open>arr_get\<close>/\<open>arr_set\<close>, which yield \<open>None\<close> for an index outside
    \<open>[0, length)\<close>. An evaluator therefore returns \<open>Some\<close> exactly when every access it
    performed was inside the array it addressed.
  \<^item> A counting loop is an application of \<open>for_lt\<close>, \<open>for_le\<close> or \<open>for_down\<close> to its body.
\<close>

declare Option.bind_cong [fundef_cong]

subsection \<open>Arrays and loops\<close>

type_synonym Vec8d = real

definition arr_get :: "'a list \<Rightarrow> int \<Rightarrow> 'a option" where
  "arr_get a i = (if 0 \<le> i \<and> i < int (length a) then Some (a ! nat i) else None)"

definition arr_set :: "'a list \<Rightarrow> int \<Rightarrow> 'a \<Rightarrow> 'a list option" where
  "arr_set a i x = (if 0 \<le> i \<and> i < int (length a) then Some (a[nat i := x]) else None)"

text \<open>\<^verbatim>\<open>std::array<Vec8d, n> a{}\<close> and \<^verbatim>\<open>Vec8d a[n] = {}\<close>: \<open>n\<close> zero-initialised entries.\<close>

definition zero_array :: "int \<Rightarrow> Vec8d list" where
  "zero_array n = replicate (nat n) 0"

text \<open>\<^verbatim>\<open>for (int i = lo; i < hi; ++i) body\<close>\<close>

function for_lt :: "int \<Rightarrow> int \<Rightarrow> (int \<Rightarrow> 's \<Rightarrow> 's option) \<Rightarrow> 's \<Rightarrow> 's option" where
  "for_lt i hi body s =
     (if i < hi then do { s' \<leftarrow> body i s; for_lt (i + 1) hi body s' } else Some s)"
  by pat_completeness auto
termination
  by (relation "measure (\<lambda>(i, hi, body, s). nat (hi - i))") auto

declare for_lt.simps [simp del]

text \<open>\<^verbatim>\<open>for (int i = lo; i <= hi; ++i) body\<close>\<close>

definition for_le :: "int \<Rightarrow> int \<Rightarrow> (int \<Rightarrow> 's \<Rightarrow> 's option) \<Rightarrow> 's \<Rightarrow> 's option" where
  "for_le lo hi body s = for_lt lo (hi + 1) body s"

text \<open>\<^verbatim>\<open>for (int i = hi; i >= lo; --i) body\<close>\<close>

function for_down :: "int \<Rightarrow> int \<Rightarrow> (int \<Rightarrow> 's \<Rightarrow> 's option) \<Rightarrow> 's \<Rightarrow> 's option" where
  "for_down i lo body s =
     (if i \<ge> lo then do { s' \<leftarrow> body i s; for_down (i - 1) lo body s' } else Some s)"
  by pat_completeness auto
termination
  by (relation "measure (\<lambda>(i, lo, body, s). nat (i - lo + 1))") auto

declare for_down.simps [simp del]

subsection \<open>Index scheme (\<^verbatim>\<open>coulomb_r_layered.hpp\<close>)\<close>

definition MAX_R_L :: int where
  "MAX_R_L = 16"

definition tetrahedral :: "int \<Rightarrow> int" where
  "tetrahedral L = (L + 1) * (L + 2) * (L + 3) sdiv 6"

definition triangular :: "int \<Rightarrow> int" where
  "triangular L = (L + 1) * (L + 2) sdiv 2"

definition MAX_R_SIZE :: int where
  "MAX_R_SIZE = tetrahedral MAX_R_L"

definition r_index :: "int \<Rightarrow> int \<Rightarrow> int \<Rightarrow> int" where
  "r_index t u v =
     (let L = t + u + v;
          shell_offset = tetrahedral (L - 1);
          uv = u + v;
          uv_offset = triangular (uv - 1)
      in shell_offset + uv_offset + v)"

text \<open>The non-negative triples of total degree at most \<open>L\<close>.\<close>

definition shell_triples :: "int \<Rightarrow> (int \<times> int \<times> int) set" where
  "shell_triples L = {(t, u, v). 0 \<le> t \<and> 0 \<le> u \<and> 0 \<le> v \<and> t + u + v \<le> L}"

subsection \<open>Per-value Hermite-E recursion (\<^verbatim>\<open>hermite_e.hpp\<close>)\<close>

text \<open>
  One branch per template: the base case, the A-side pair (\<open>nB = 0\<close>), the B-side pair
  (\<open>nA = 0\<close>), the general pair, and last the primary template, which returns zero for every
  other combination of arguments.
\<close>

function HermiteE :: "int \<Rightarrow> int \<Rightarrow> int \<Rightarrow> Vec8d \<Rightarrow> Vec8d \<Rightarrow> Vec8d \<Rightarrow> Vec8d" where
  "HermiteE nA nB t PA PB p =
     (if nA = 0 \<and> nB = 0 \<and> t = 0 then 1
      else if nA > 0 \<and> nB = 0 \<and> t = 0 then
        PA * HermiteE (nA - 1) 0 t PA PB p
          + of_int (t + 1) * HermiteE (nA - 1) 0 (t + 1) PA PB p
      else if nA > 0 \<and> nB = 0 \<and> t > 0 \<and> t \<le> nA then
        0.5 / p * HermiteE (nA - 1) 0 (t - 1) PA PB p
          + PA * HermiteE (nA - 1) 0 t PA PB p
          + of_int (t + 1) * HermiteE (nA - 1) 0 (t + 1) PA PB p
      else if nA = 0 \<and> nB > 0 \<and> t = 0 then
        PB * HermiteE 0 (nB - 1) t PA PB p
          + of_int (t + 1) * HermiteE 0 (nB - 1) (t + 1) PA PB p
      else if nA = 0 \<and> nB > 0 \<and> t > 0 \<and> t \<le> nB then
        0.5 / p * HermiteE 0 (nB - 1) (t - 1) PA PB p
          + PB * HermiteE 0 (nB - 1) t PA PB p
          + of_int (t + 1) * HermiteE 0 (nB - 1) (t + 1) PA PB p
      else if nA > 0 \<and> nB > 0 \<and> t = 0 then
        PA * HermiteE (nA - 1) nB t PA PB p
          + of_int (t + 1) * HermiteE (nA - 1) nB (t + 1) PA PB p
      else if nA > 0 \<and> nB > 0 \<and> t > 0 \<and> t \<le> nA + nB then
        0.5 / p * HermiteE (nA - 1) nB (t - 1) PA PB p
          + PA * HermiteE (nA - 1) nB t PA PB p
          + of_int (t + 1) * HermiteE (nA - 1) nB (t + 1) PA PB p
      else 0)"
  by pat_completeness auto
termination
  by (relation "measure (\<lambda>(nA, nB, t, PA, PB, p). nat nA + nat nB)") auto

declare HermiteE.simps [simp del]

subsection \<open>Layered Hermite-E evaluator (\<^verbatim>\<open>hermite_e_layered.hpp\<close>)\<close>

definition MAX_L :: int where
  "MAX_L = 4"

definition MAX_T :: int where
  "MAX_T = 2 * MAX_L + 1"

text \<open>
  The statements of the primary template's \<^verbatim>\<open>compute\<close> that follow the computation of
  \<^verbatim>\<open>prev\<close> and \<^verbatim>\<open>inv2p\<close>: they fill \<^verbatim>\<open>result\<close> from \<^verbatim>\<open>prev\<close>.
\<close>

definition HermiteELayer_fill_A ::
  "int \<Rightarrow> int \<Rightarrow> Vec8d \<Rightarrow> Vec8d \<Rightarrow> Vec8d list \<Rightarrow> Vec8d list \<Rightarrow> Vec8d list option" where
  "HermiteELayer_fill_A nA nB PA inv2p prev result0 = do {
     p0 \<leftarrow> arr_get prev 0;
     p1 \<leftarrow> arr_get prev 1;
     result \<leftarrow> arr_set result0 0 (PA * p0 + p1);
     result \<leftarrow> for_lt 1 (nA + nB) (\<lambda>t result. do {
         a \<leftarrow> arr_get prev (t - 1);
         b \<leftarrow> arr_get prev t;
         c \<leftarrow> arr_get prev (t + 1);
         arr_set result t (inv2p * a + PA * b + of_int (t + 1) * c)
       }) result;
     if nA + nB > 0 then do {
         let t = nA + nB;
         a \<leftarrow> arr_get prev (t - 1);
         b \<leftarrow> arr_get prev t;
         arr_set result t (inv2p * a + PA * b)
       }
     else Some result
   }"

text \<open>The same for the B-side specialisation \<^verbatim>\<open>HermiteELayer<0, nB>\<close>.\<close>

definition HermiteELayer_fill_B ::
  "int \<Rightarrow> Vec8d \<Rightarrow> Vec8d \<Rightarrow> Vec8d list \<Rightarrow> Vec8d list \<Rightarrow> Vec8d list option" where
  "HermiteELayer_fill_B nB PB inv2p prev result0 = do {
     p0 \<leftarrow> arr_get prev 0;
     p1 \<leftarrow> arr_get prev 1;
     result \<leftarrow> arr_set result0 0 (PB * p0 + p1);
     result \<leftarrow> for_lt 1 nB (\<lambda>t result. do {
         a \<leftarrow> arr_get prev (t - 1);
         b \<leftarrow> arr_get prev t;
         c \<leftarrow> arr_get prev (t + 1);
         arr_set result t (inv2p * a + PB * b + of_int (t + 1) * c)
       }) result;
     a \<leftarrow> arr_get prev (nB - 1);
     b \<leftarrow> arr_get prev nB;
     arr_set result nB (inv2p * a + PB * b)
   }"

text \<open>
  \<^verbatim>\<open>HermiteELayer<nA, nB>::compute\<close>. The full specialisation \<^verbatim>\<open><0, 0>\<close> is the base
  case, the partial specialisation \<^verbatim>\<open><0, nB>\<close> steps on \<open>nB\<close>, the primary template steps
  on \<open>nA\<close>. An instantiation with a negative argument does not compile (the
  \<^verbatim>\<open>static_assert\<close> of the B side, an unbounded chain of instantiations on the A side) and
  yields no value.
\<close>

function HermiteELayer_compute ::
  "int \<Rightarrow> int \<Rightarrow> Vec8d \<Rightarrow> Vec8d \<Rightarrow> Vec8d \<Rightarrow> Vec8d list option" where
  "HermiteELayer_compute nA nB PA PB p =
     (if nA < 0 \<or> nB < 0 then None
      else if nA = 0 \<and> nB = 0 then arr_set (zero_array MAX_T) 0 1
      else if nA = 0 then do {
          prev \<leftarrow> HermiteELayer_compute 0 (nB - 1) PA PB p;
          let inv2p = 0.5 / p;
          HermiteELayer_fill_B nB PB inv2p prev (zero_array MAX_T)
        }
      else do {
          prev \<leftarrow> HermiteELayer_compute (nA - 1) nB PA PB p;
          let inv2p = 0.5 / p;
          HermiteELayer_fill_A nA nB PA inv2p prev (zero_array MAX_T)
        })"
  by pat_completeness auto
termination
  by (relation "measure (\<lambda>(nA, nB, PA, PB, p). nat nA + nat nB)") auto

declare HermiteELayer_compute.simps [simp del]

subsection \<open>Generated Hermite-E layer evaluator (\<^verbatim>\<open>hermite_coeff_layered.hpp\<close>)\<close>

text \<open>
  The three recursive specialisations share one body up to the displacement \<open>X\<close> (\<open>PA\<close> or
  \<open>PB\<close>) they multiply with; \<open>n_values\<close> is \<^verbatim>\<open>N_VALUES\<close>. The caller's buffer behind
  \<^verbatim>\<open>out\<close> is passed in and returned updated.
\<close>

definition HermiteECoeffLayer_fill ::
  "int \<Rightarrow> Vec8d \<Rightarrow> Vec8d \<Rightarrow> Vec8d list \<Rightarrow> Vec8d list \<Rightarrow> Vec8d list option" where
  "HermiteECoeffLayer_fill n_values X p prev out0 = do {
     p0 \<leftarrow> arr_get prev 0;
     p1 \<leftarrow> arr_get prev 1;
     out \<leftarrow> arr_set out0 0 (X * p0 + 1 * p1);
     for_lt 1 n_values (\<lambda>t out. do {
         a \<leftarrow> arr_get prev (t - 1);
         b \<leftarrow> arr_get prev t;
         c \<leftarrow> arr_get prev (t + 1);
         arr_set out t (0.5 / p * a + X * b + of_int (t + 1) * c)
       }) out
   }"

function HermiteECoeffLayer_compute ::
  "int \<Rightarrow> int \<Rightarrow> Vec8d list \<Rightarrow> Vec8d \<Rightarrow> Vec8d \<Rightarrow> Vec8d \<Rightarrow> Vec8d list option" where
  "HermiteECoeffLayer_compute nA nB out PA PB p =
     (if nA = 0 \<and> nB = 0 then arr_set out 0 1
      else if nA > 0 \<and> nB = 0 then do {
          prev \<leftarrow> HermiteECoeffLayer_compute (nA - 1) nB (zero_array (nA + nB + 2)) PA PB p;
          HermiteECoeffLayer_fill (nA + nB + 1) PA p prev out
        }
      else if nA = 0 \<and> nB > 0 then do {
          prev \<leftarrow> HermiteECoeffLayer_compute nA (nB - 1) (zero_array (nA + nB + 2)) PA PB p;
          HermiteECoeffLayer_fill (nA + nB + 1) PB p prev out
        }
      else if nA > 0 \<and> nB > 0 then do {
          prev \<leftarrow> HermiteECoeffLayer_compute (nA - 1) nB (zero_array (nA + nB + 2)) PA PB p;
          HermiteECoeffLayer_fill (nA + nB + 1) PA p prev out
        }
      else Some out)"
  by pat_completeness auto
termination
  by (relation "measure (\<lambda>(nA, nB, out, PA, PB, p). nat nA + nat nB)") auto

declare HermiteECoeffLayer_compute.simps [simp del]

subsection \<open>Gradient extension (\<^verbatim>\<open>hermite_grad.hpp\<close>)\<close>

definition HermiteDerivPA :: "int \<Rightarrow> int \<Rightarrow> int \<Rightarrow> Vec8d \<Rightarrow> Vec8d \<Rightarrow> Vec8d \<Rightarrow> Vec8d" where
  "HermiteDerivPA nA nB t PA PB p =
     (if nA = 0 \<and> nB \<ge> 0 \<and> t \<ge> 0 \<and> t \<le> nB then 0
      else if nA > 0 \<and> nB \<ge> 0 \<and> t \<ge> 0 \<and> t \<le> nA + nB then
        of_int nA * HermiteE (nA - 1) nB t PA PB p
      else 0)"

definition HermiteDerivPB :: "int \<Rightarrow> int \<Rightarrow> int \<Rightarrow> Vec8d \<Rightarrow> Vec8d \<Rightarrow> Vec8d \<Rightarrow> Vec8d" where
  "HermiteDerivPB nA nB t PA PB p =
     (if nA \<ge> 0 \<and> nB = 0 \<and> t \<ge> 0 \<and> t \<le> nA then 0
      else if nA \<ge> 0 \<and> nB > 0 \<and> t \<ge> 0 \<and> t \<le> nA + nB then
        of_int nB * HermiteE nA (nB - 1) t PA PB p
      else 0)"

definition HermiteDerivA ::
  "int \<Rightarrow> int \<Rightarrow> int \<Rightarrow> Vec8d \<Rightarrow> Vec8d \<Rightarrow> Vec8d \<Rightarrow> Vec8d \<Rightarrow> Vec8d \<Rightarrow> Vec8d" where
  "HermiteDerivA nA nB t PA PB p alpha_A alpha_B =
     (if nA = 0 \<and> nB = 0 \<and> t = 0 then 0
      else
        let dE_dPA = HermiteDerivPA nA nB t PA PB p;
            dE_dPB = HermiteDerivPB nA nB t PA PB p;
            dPA_dA = - alpha_B / p;
            dPB_dA = alpha_A / p
        in dE_dPA * dPA_dA + dE_dPB * dPB_dA)"

definition HermiteDerivB ::
  "int \<Rightarrow> int \<Rightarrow> int \<Rightarrow> Vec8d \<Rightarrow> Vec8d \<Rightarrow> Vec8d \<Rightarrow> Vec8d \<Rightarrow> Vec8d \<Rightarrow> Vec8d" where
  "HermiteDerivB nA nB t PA PB p alpha_A alpha_B =
     (if nA = 0 \<and> nB = 0 \<and> t = 0 then 0
      else
        let dE_dPA = HermiteDerivPA nA nB t PA PB p;
            dE_dPB = HermiteDerivPB nA nB t PA PB p;
            dPA_dB = alpha_B / p;
            dPB_dB = - alpha_A / p
        in dE_dPA * dPA_dB + dE_dPB * dPB_dB)"

subsection \<open>Per-value Coulomb-R recursion (\<^verbatim>\<open>coulomb_aux.hpp\<close>)\<close>

text \<open>
  One branch per template: the base case \<^verbatim>\<open><0,0,0,N>\<close>, the X-, Y- and Z-recurrence, and
  last the primary template, which returns zero (this is where \<^verbatim>\<open>t - 2 = -1\<close> ends up).
  \<^verbatim>\<open>Boys\<close> is a pointer to the caller's table; the list is that table.
\<close>

function CoulombR ::
  "int \<Rightarrow> int \<Rightarrow> int \<Rightarrow> int \<Rightarrow> Vec8d \<Rightarrow> Vec8d \<Rightarrow> Vec8d \<Rightarrow> Vec8d list \<Rightarrow> Vec8d option" where
  "CoulombR t u v N PCx PCy PCz Boys =
     (if t = 0 \<and> u = 0 \<and> v = 0 \<and> N \<ge> 0 then arr_get Boys N
      else if t > 0 \<and> u \<ge> 0 \<and> v \<ge> 0 \<and> N \<ge> 0 then do {
          a \<leftarrow> CoulombR (t - 1) u v (N + 1) PCx PCy PCz Boys;
          let term1 = PCx * a;
          b \<leftarrow> CoulombR (t - 2) u v (N + 1) PCx PCy PCz Boys;
          let term2 = of_int (t - 1) * b;
          Some (term1 + term2)
        }
      else if t = 0 \<and> u > 0 \<and> v \<ge> 0 \<and> N \<ge> 0 then do {
          a \<leftarrow> CoulombR 0 (u - 1) v (N + 1) PCx PCy PCz Boys;
          let term1 = PCy * a;
          b \<leftarrow> CoulombR 0 (u - 2) v (N + 1) PCx PCy PCz Boys;
          let term2 = of_int (u - 1) * b;
          Some (term1 + term2)
        }
      else if t = 0 \<and> u = 0 \<and> v > 0 \<and> N \<ge> 0 then do {
          a \<leftarrow> CoulombR 0 0 (v - 1) (N + 1) PCx PCy PCz Boys;
          let term1 = PCz * a;
          b \<leftarrow> CoulombR 0 0 (v - 2) (N + 1) PCx PCy PCz Boys;
          let term2 = of_int (v - 1) * b;
          Some (term1 + term2)
        }
      else Some 0)"
  by pat_completeness auto
termination
  by (relation "measure (\<lambda>(t, u, v, N, PCx, PCy, PCz, Boys). nat t + nat u + nat v)") auto

declare CoulombR.simps [simp del]

subsection \<open>Layered Coulomb-R evaluator (\<^verbatim>\<open>coulomb_r_layered.hpp\<close>)\<close>

text \<open>
  The body shared by the three sub-recurrences: it writes the entry of \<^verbatim>\<open>curr\<close> at offset
  \<open>i\<close> from the entry of \<^verbatim>\<open>prev\<close> at offset \<open>i1\<close> and, when \<open>k > 1\<close>, the one at offset
  \<open>i2\<close>; \<open>PC\<close> is the displacement component and \<open>k\<close> the index being raised. The
  conditional expression reads \<^verbatim>\<open>prev\<close> a second time only in its first branch.
\<close>

definition CoulombRLayer_entry ::
  "Vec8d \<Rightarrow> int \<Rightarrow> Vec8d list \<Rightarrow> int \<Rightarrow> int \<Rightarrow> int \<Rightarrow> Vec8d list \<Rightarrow> Vec8d list option" where
  "CoulombRLayer_entry PC k prev i1 i2 i curr_buf = do {
     a \<leftarrow> arr_get prev i1;
     let term1 = PC * a;
     term2 \<leftarrow> (if k > 1 then do { b \<leftarrow> arr_get prev i2; Some (of_int (k - 1) * b) }
               else Some 0);
     arr_set curr_buf i (term1 + term2)
   }"

text \<open>
  One iteration of the loop over \<open>N\<close>; the state is the pair of the arrays \<^verbatim>\<open>curr\<close> and
  \<^verbatim>\<open>prev\<close> (\<open>curr_buf\<close> and \<open>prev\<close> below), exchanged at the end by \<^verbatim>\<open>std::swap\<close>.
\<close>

definition CoulombRLayer_step ::
  "int \<Rightarrow> Vec8d \<Rightarrow> Vec8d \<Rightarrow> Vec8d \<Rightarrow> Vec8d list \<Rightarrow> int \<Rightarrow> Vec8d list \<times> Vec8d list
     \<Rightarrow> (Vec8d list \<times> Vec8d list) option" where
  "CoulombRLayer_step L_total PCx PCy PCz Boys N state =
     (case state of (curr_init, prev) \<Rightarrow> do {
        let L_max_at_N = L_total - N;
        curr_buf \<leftarrow> for_lt 0 (tetrahedral L_max_at_N) (\<lambda>i curr_buf. arr_set curr_buf i 0) curr_init;
        b \<leftarrow> arr_get Boys N;
        curr_buf \<leftarrow> arr_set curr_buf 0 b;
        curr_buf \<leftarrow> for_le 1 L_max_at_N (\<lambda>v.
            CoulombRLayer_entry PCz v prev
              (r_index 0 0 (v - 1)) (r_index 0 0 (v - 2)) (r_index 0 0 v)) curr_buf;
        curr_buf \<leftarrow> for_le 1 L_max_at_N (\<lambda>u.
            for_le 0 (L_max_at_N - u) (\<lambda>v.
              CoulombRLayer_entry PCy u prev
                (r_index 0 (u - 1) v) (r_index 0 (u - 2) v) (r_index 0 u v))) curr_buf;
        curr_buf \<leftarrow> for_le 1 L_max_at_N (\<lambda>t.
            for_le 0 (L_max_at_N - t) (\<lambda>u.
              for_le 0 (L_max_at_N - t - u) (\<lambda>v.
                CoulombRLayer_entry PCx t prev
                  (r_index (t - 1) u v) (r_index (t - 2) u v) (r_index t u v)))) curr_buf;
        Some (prev, curr_buf)
      })"

text \<open>
  \<^verbatim>\<open>CoulombRLayer<L_total>::compute\<close>: the \<^verbatim>\<open>static_assert\<close> on the range of \<open>L_total\<close>, the
  specialisation for \<open>L_total = 0\<close>, and the primary template.
\<close>

definition CoulombRLayer_init :: "int \<Rightarrow> Vec8d list \<Rightarrow> (Vec8d list \<times> Vec8d list) option" where
  "CoulombRLayer_init L_total Boys = do {
     let curr_buf = zero_array MAX_R_SIZE;
     let prev = zero_array MAX_R_SIZE;
     b \<leftarrow> arr_get Boys L_total;
     prev \<leftarrow> arr_set prev 0 b;
     Some (curr_buf, prev)
   }"

definition CoulombRLayer_compute ::
  "int \<Rightarrow> Vec8d \<Rightarrow> Vec8d \<Rightarrow> Vec8d \<Rightarrow> Vec8d list \<Rightarrow> Vec8d list option" where
  "CoulombRLayer_compute L_total PCx PCy PCz Boys =
     (if \<not> (L_total \<ge> 0 \<and> L_total \<le> MAX_R_L) then None
      else if L_total = 0 then do {
          b \<leftarrow> arr_get Boys 0;
          arr_set (zero_array MAX_R_SIZE) 0 b
        }
      else do {
          state \<leftarrow> CoulombRLayer_init L_total Boys;
          state \<leftarrow> for_down (L_total - 1) 0 (CoulombRLayer_step L_total PCx PCy PCz Boys) state;
          Some (snd state)
        })"

text \<open>
  The value the step assigns to entry \<open>(t, u, v)\<close> of the new shell, written in terms of the
  shell \<^verbatim>\<open>prev\<close> it reads and the Boys table (used to state what the step computes).
\<close>

definition shell_value ::
  "Vec8d \<Rightarrow> Vec8d \<Rightarrow> Vec8d \<Rightarrow> Vec8d list \<Rightarrow> int \<Rightarrow> Vec8d list \<Rightarrow> int \<Rightarrow> int \<Rightarrow> int \<Rightarrow> Vec8d" where
  "shell_value PCx PCy PCz Boys N prev t u v =
     (if t > 0 then
        PCx * prev ! nat (r_index (t - 1) u v)
          + (if t > 1 then of_int (t - 1) * prev ! nat (r_index (t - 2) u v) else 0)
      else if u > 0 then
        PCy * prev ! nat (r_index 0 (u - 1) v)
          + (if u > 1 then of_int (u - 1) * prev ! nat (r_index 0 (u - 2) v) else 0)
      else if v > 0 then
        PCz * prev ! nat (r_index 0 0 (v - 1))
          + (if v > 1 then of_int (v - 1) * prev ! nat (r_index 0 0 (v - 2)) else 0)
      else Boys ! nat N)"

subsection \<open>Predicates used to state what the evaluators compute\<close>

text \<open>
  The value a Hermite-E layer step assigns to index \<open>j\<close>, in terms of the previous layer:
  the \<open>j - 1\<close> term is absent at \<open>j = 0\<close> and the \<open>j + 1\<close> term is absent at the top index
  \<open>j = n\<close>.
\<close>

definition layer_entry :: "int \<Rightarrow> Vec8d \<Rightarrow> Vec8d \<Rightarrow> Vec8d list \<Rightarrow> int \<Rightarrow> Vec8d" where
  "layer_entry n X inv2p prev j =
     (if j = 0 then 0 else inv2p * prev ! nat (j - 1)) + X * prev ! nat j
       + (if j < n then of_int (j + 1) * prev ! nat (j + 1) else 0)"

text \<open>
  Loop invariant of a layer step: the entries below \<open>k\<close> hold their final values, all others
  are those of the initial array.
\<close>

definition filled ::
  "int \<Rightarrow> Vec8d \<Rightarrow> Vec8d \<Rightarrow> Vec8d list \<Rightarrow> Vec8d list \<Rightarrow> int \<Rightarrow> Vec8d list \<Rightarrow> bool" where
  "filled n X inv2p prev result0 k r \<longleftrightarrow>
     length r = length result0
     \<and> (\<forall>j. 0 \<le> j \<and> j < k \<longrightarrow> r ! nat j = layer_entry n X inv2p prev j)
     \<and> (\<forall>j. k \<le> j \<longrightarrow> r ! nat j = result0 ! nat j)"

text \<open>
  An array of \<open>MAX_T\<close> entries that agrees with the per-value recursion at every index
  (which is zero beyond \<open>nA + nB\<close>).
\<close>

definition layer_matches :: "int \<Rightarrow> int \<Rightarrow> Vec8d \<Rightarrow> Vec8d \<Rightarrow> Vec8d \<Rightarrow> Vec8d list \<Rightarrow> bool" where
  "layer_matches nA nB PA PB p r \<longleftrightarrow>
     length r = nat MAX_T
     \<and> (\<forall>t. 0 \<le> t \<and> t < MAX_T \<longrightarrow> r ! nat t = HermiteE nA nB t PA PB p)"

text \<open>
  The caller's buffer after the generated evaluator ran: entries \<open>0 \<dots> nA + nB\<close> agree with
  the per-value recursion, the others are untouched.
\<close>

definition coeff_layer ::
  "int \<Rightarrow> int \<Rightarrow> Vec8d \<Rightarrow> Vec8d \<Rightarrow> Vec8d \<Rightarrow> Vec8d list \<Rightarrow> Vec8d list \<Rightarrow> bool" where
  "coeff_layer nA nB PA PB p out0 out \<longleftrightarrow>
     length out = length out0
     \<and> (\<forall>t. 0 \<le> t \<and> t \<le> nA + nB \<longrightarrow> out ! nat t = HermiteE nA nB t PA PB p)
     \<and> (\<forall>j. nA + nB < j \<longrightarrow> out ! nat j = out0 ! nat j)"

text \<open>
  Loop invariant of a Coulomb-R step: the entries of the triples of degree at most \<open>M\<close>
  selected by \<open>D\<close> hold the values \<open>val\<close>.
\<close>

definition shell_filled ::
  "(int \<Rightarrow> int \<Rightarrow> int \<Rightarrow> bool) \<Rightarrow> int \<Rightarrow> (int \<Rightarrow> int \<Rightarrow> int \<Rightarrow> Vec8d) \<Rightarrow> nat \<Rightarrow> Vec8d list \<Rightarrow> bool" where
  "shell_filled D M val len c \<longleftrightarrow>
     length c = len
     \<and> (\<forall>t u v. 0 \<le> t \<and> 0 \<le> u \<and> 0 \<le> v \<and> t + u + v \<le> M \<and> D t u v
           \<longrightarrow> c ! nat (r_index t u v) = val t u v)"

text \<open>
  A shell buffer that agrees with the per-value recursion at auxiliary order \<open>N\<close> on every
  triple of degree at most \<open>M\<close>.
\<close>

definition shell_matches ::
  "Vec8d \<Rightarrow> Vec8d \<Rightarrow> Vec8d \<Rightarrow> Vec8d list \<Rightarrow> int \<Rightarrow> int \<Rightarrow> Vec8d list \<Rightarrow> bool" where
  "shell_matches PCx PCy PCz Boys M N buf \<longleftrightarrow>
     (\<forall>t u v. 0 \<le> t \<and> 0 \<le> u \<and> 0 \<le> v \<and> t + u + v \<le> M
        \<longrightarrow> CoulombR t u v N PCx PCy PCz Boys = Some (buf ! nat (r_index t u v)))"

section \<open>The index scheme\<close>

text \<open>
  On the arguments that occur, the truncating quotient is the exact one: the dividend is
  non-negative and a multiple of the divisor.
\<close>

lemma sdiv_nonneg: "0 \<le> a \<Longrightarrow> 0 < b \<Longrightarrow> (a::int) sdiv b = a div b"
  by (simp add: signed_divide_int_def sgn_if)

lemma triangular_div: "-1 \<le> n \<Longrightarrow> triangular n = (n + 1) * (n + 2) div 2"
  unfolding triangular_def by (rule sdiv_nonneg) simp_all

lemma tetrahedral_div: "-1 \<le> n \<Longrightarrow> tetrahedral n = (n + 1) * (n + 2) * (n + 3) div 6"
  unfolding tetrahedral_def by (rule sdiv_nonneg) simp_all

lemma triangular_rec: "0 \<le> n \<Longrightarrow> triangular n = triangular (n - 1) + (n + 1)"
proof -
  assume n: "0 \<le> n"
  have e: "(n + 1) * (n + 2) = n * (n + 1) + (n + 1) * 2" by (simp add: algebra_simps)
  have s: "(n + 1) * (n + 2) div 2 = n * (n + 1) div 2 + (n + 1)"
    unfolding e by simp
  have t1: "triangular n = (n + 1) * (n + 2) div 2" using n by (simp add: triangular_div)
  have "triangular (n - 1) = (n - 1 + 1) * (n - 1 + 2) div 2" using n by (intro triangular_div) simp
  then have t2: "triangular (n - 1) = n * (n + 1) div 2" by (simp add: add.commute)
  show ?thesis unfolding t1 t2 s ..
qed

lemma triangular_twice: "-1 \<le> n \<Longrightarrow> 2 * triangular n = (n + 1) * (n + 2)"
  by (simp add: triangular_div)

lemma tetrahedral_rec: "0 \<le> n \<Longrightarrow> tetrahedral n = tetrahedral (n - 1) + triangular n"
proof -
  assume n: "0 \<le> n"
  have e: "(n + 1) * (n + 2) * (n + 3) = n * (n + 1) * (n + 2) + triangular n * 6"
    using triangular_twice[of n] n by (simp add: algebra_simps)
  have s: "(n + 1) * (n + 2) * (n + 3) div 6 = n * (n + 1) * (n + 2) div 6 + triangular n"
    unfolding e by simp
  have t1: "tetrahedral n = (n + 1) * (n + 2) * (n + 3) div 6" using n by (simp add: tetrahedral_div)
  have "tetrahedral (n - 1) = (n - 1 + 1) * (n - 1 + 2) * (n - 1 + 3) div 6"
    using n by (intro tetrahedral_div) simp
  then have t2: "tetrahedral (n - 1) = n * (n + 1) * (n + 2) div 6" by (simp add: add.commute)
  show ?thesis unfolding t1 t2 s ..
qed

lemma triangular_m1 [simp]: "triangular (- 1) = 0"
  by (simp add: triangular_def)
lemma tetrahedral_m1 [simp]: "tetrahedral (- 1) = 0"
  by (simp add: tetrahedral_def)

lemma triangular_nonneg: "-1 \<le> n \<Longrightarrow> 0 \<le> triangular n"
  by (simp add: triangular_div)

lemma tetrahedral_nonneg: "-1 \<le> n \<Longrightarrow> 0 \<le> tetrahedral n"
  by (simp add: tetrahedral_div pos_imp_zdiv_nonneg_iff)

lemma triangular_mono: "a \<le> b \<Longrightarrow> -1 \<le> a \<Longrightarrow> triangular a \<le> triangular b"
proof (induction b rule: int_ge_induct)
  case base show ?case by simp
next
  case (step i)
  have "triangular (i + 1) = triangular i + (i + 2)" using triangular_rec[of "i + 1"] step by simp
  with step show ?case by simp
qed

lemma tetrahedral_mono: "a \<le> b \<Longrightarrow> -1 \<le> a \<Longrightarrow> tetrahedral a \<le> tetrahedral b"
proof (induction b rule: int_ge_induct)
  case base show ?case by simp
next
  case (step i)
  have "tetrahedral (i + 1) = tetrahedral i + triangular (i + 1)" using tetrahedral_rec[of "i + 1"] step by simp
  moreover have "0 \<le> triangular (i + 1)" using step by (intro triangular_nonneg) simp
  ultimately show ?case using step by simp
qed


lemma triangular_window:
  assumes "0 \<le> v" "v \<le> a"
  shows "triangular (a - 1) \<le> triangular (a - 1) + v" "triangular (a - 1) + v < triangular a"
  using assms triangular_rec[of a] by simp_all

lemma triangular_decode:
  assumes "0 \<le> v" "v \<le> a" "0 \<le> v'" "v' \<le> b"
    and eq: "triangular (a - 1) + v = triangular (b - 1) + v'"
  shows "a = b \<and> v = v'"
proof -
  have lt: "triangular (x - 1) + w < triangular (y - 1) + w'"
    if "0 \<le> w" "w \<le> x" "0 \<le> w'" "w' \<le> y" "x < y" for x y w w'
  proof -
    have "triangular (x - 1) + w < triangular x" using that by (intro triangular_window) simp_all
    also have "triangular x \<le> triangular (y - 1)" using that by (intro triangular_mono) simp_all
    finally show ?thesis using that by simp
  qed
  have "a = b"
  proof (rule ccontr)
    assume "a \<noteq> b"
    then consider "a < b" | "b < a" by linarith
    then show False
      using lt[of v a v' b] lt[of v' b v a] assms by cases simp_all
  qed
  with eq show ?thesis by simp
qed

lemma r_index_split:
  "r_index t u v = tetrahedral (t + u + v - 1) + (triangular (u + v - 1) + v)"
  by (simp add: r_index_def Let_def)

lemma r_index_window:
  assumes "0 \<le> t" "0 \<le> u" "0 \<le> v"
  shows "tetrahedral (t + u + v - 1) \<le> r_index t u v" "r_index t u v < tetrahedral (t + u + v)"
proof -
  have a: "triangular (u + v - 1) \<le> triangular (u + v - 1) + v"
          "triangular (u + v - 1) + v < triangular (u + v)"
    using assms by (simp_all add: triangular_window)
  have b: "0 \<le> triangular (u + v - 1)" using assms by (intro triangular_nonneg) simp
  have c: "triangular (u + v) \<le> triangular (t + u + v)" using assms by (intro triangular_mono) simp_all
  show "tetrahedral (t + u + v - 1) \<le> r_index t u v" using a b by (simp add: r_index_split)
  show "r_index t u v < tetrahedral (t + u + v)"
    using a c assms tetrahedral_rec[of "t + u + v"] by (simp add: r_index_split)
qed

lemma r_index_bounds:
  assumes "0 \<le> t" "0 \<le> u" "0 \<le> v" "t + u + v \<le> L"
  shows "0 \<le> r_index t u v" "r_index t u v < tetrahedral L"
proof -
  have "0 \<le> tetrahedral (t + u + v - 1)" using assms by (intro tetrahedral_nonneg) simp
  then show "0 \<le> r_index t u v" using r_index_window(1)[OF assms(1-3)] by simp
  have "tetrahedral (t + u + v) \<le> tetrahedral L" using assms by (intro tetrahedral_mono) simp_all
  then show "r_index t u v < tetrahedral L" using r_index_window(2)[OF assms(1-3)] by simp
qed

lemma r_index_inj:
  assumes "0 \<le> t" "0 \<le> u" "0 \<le> v" "0 \<le> t'" "0 \<le> u'" "0 \<le> v'"
    and eq: "r_index t u v = r_index t' u' v'"
  shows "t = t' \<and> u = u' \<and> v = v'"
proof -
  have lt: "r_index a b c < r_index a' b' c'"
    if "0 \<le> a" "0 \<le> b" "0 \<le> c" "0 \<le> a'" "0 \<le> b'" "0 \<le> c'" "a + b + c < a' + b' + c'"
    for a b c a' b' c'
  proof -
    have "r_index a b c < tetrahedral (a + b + c)" using that by (intro r_index_window) simp_all
    also have "tetrahedral (a + b + c) \<le> tetrahedral (a' + b' + c' - 1)"
      using that by (intro tetrahedral_mono) simp_all
    also have "\<dots> \<le> r_index a' b' c'" using that by (intro r_index_window) simp_all
    finally show ?thesis .
  qed
  have L: "t + u + v = t' + u' + v'"
  proof (rule ccontr)
    assume "t + u + v \<noteq> t' + u' + v'"
    then consider "t + u + v < t' + u' + v'" | "t' + u' + v' < t + u + v" by linarith
    then show False using lt[of t u v t' u' v'] lt[of t' u' v' t u v] assms by cases simp_all
  qed
  then have "triangular (u + v - 1) + v = triangular (u' + v' - 1) + v'"
    using eq by (simp add: r_index_split)
  then have "u + v = u' + v' \<and> v = v'"
    using assms by (intro triangular_decode) simp_all
  with L show ?thesis by simp
qed

lemma triangular_cover:
  "-1 \<le> n \<Longrightarrow> 0 \<le> k \<Longrightarrow> k < triangular n \<Longrightarrow>
     \<exists>a v. 0 \<le> v \<and> v \<le> a \<and> a \<le> n \<and> k = triangular (a - 1) + v"
proof (induction n rule: int_ge_induct)
  case base then show ?case by simp
next
  case (step i)
  have rec: "triangular (i + 1) = triangular i + (i + 2)" using triangular_rec[of "i + 1"] step by simp
  show ?case
  proof (cases "k < triangular i")
    case True
    with step obtain a v where "0 \<le> v" "v \<le> a" "a \<le> i" "k = triangular (a - 1) + v" by blast
    then show ?thesis by (intro exI[of _ a] exI[of _ v]) simp
  next
    case False
    with step rec show ?thesis
      by (intro exI[of _ "i + 1"] exI[of _ "k - triangular i"]) simp
  qed
qed

lemma r_index_cover:
  "-1 \<le> L \<Longrightarrow> 0 \<le> k \<Longrightarrow> k < tetrahedral L \<Longrightarrow>
     \<exists>t u v. 0 \<le> t \<and> 0 \<le> u \<and> 0 \<le> v \<and> t + u + v \<le> L \<and> r_index t u v = k"
proof (induction L rule: int_ge_induct)
  case base then show ?case by simp
next
  case (step i)
  have rec: "tetrahedral (i + 1) = tetrahedral i + triangular (i + 1)"
    using tetrahedral_rec[of "i + 1"] step by simp
  show ?case
  proof (cases "k < tetrahedral i")
    case True
    with step obtain t u v where "0 \<le> t" "0 \<le> u" "0 \<le> v" "t + u + v \<le> i" "r_index t u v = k"
      by blast
    then show ?thesis by (intro exI[of _ t] exI[of _ u] exI[of _ v]) simp
  next
    case False
    then have "0 \<le> k - tetrahedral i" "k - tetrahedral i < triangular (i + 1)"
      using step rec by simp_all
    with triangular_cover[of "i + 1" "k - tetrahedral i"] step
    obtain a v where av: "0 \<le> v" "v \<le> a" "a \<le> i + 1" "k - tetrahedral i = triangular (a - 1) + v"
      by auto
    have "r_index (i + 1 - a) (a - v) v = k"
      using av by (simp add: r_index_split)
    with av show ?thesis
      by (intro exI[of _ "i + 1 - a"] exI[of _ "a - v"] exI[of _ v]) simp
  qed
qed

text \<open>
  For every total degree the evaluators support (\<open>L \<le> MAX_R_L\<close>) the products formed by
  \<^verbatim>\<open>tetrahedral\<close> and \<^verbatim>\<open>triangular\<close> are far below \<open>2^31\<close>: the unbounded integers of this
  development agree with 32-bit \<^verbatim>\<open>int\<close> there.
\<close>

lemma index_arithmetic_fits_int32:
  assumes "- 1 \<le> L" "L \<le> MAX_R_L"
  shows "0 \<le> (L + 1) * (L + 2) * (L + 3)" "(L + 1) * (L + 2) * (L + 3) \<le> 5814"
    "0 \<le> (L + 1) * (L + 2)" "(L + 1) * (L + 2) \<le> 342"
proof -
  have a: "0 \<le> L + 1" "L + 1 \<le> 17" "0 \<le> L + 2" "L + 2 \<le> 18" "0 \<le> L + 3" "L + 3 \<le> 19"
    using assms by (simp_all add: MAX_R_L_def)
  show "0 \<le> (L + 1) * (L + 2) * (L + 3)" "0 \<le> (L + 1) * (L + 2)" using a by simp_all
  have b: "(L + 1) * (L + 2) \<le> 17 * 18" using a by (intro mult_mono) simp_all
  then show "(L + 1) * (L + 2) \<le> 342" by simp
  have "(L + 1) * (L + 2) * (L + 3) \<le> (17 * 18) * 19" using a b by (intro mult_mono) simp_all
  then show "(L + 1) * (L + 2) * (L + 3) \<le> 5814" by simp
qed

text \<open>
  Claim C3. For every fixed \<open>L\<close> with \<open>0 \<le> L \<le> 8\<close>, the map \<open>(t, u, v) \<mapsto> r_index t u v\<close>,
  restricted to the non-negative triples with \<open>t + u + v \<le> L\<close>, is a bijection onto
  \<open>{0, \<dots>, tetrahedral L - 1}\<close>: distinct triples get distinct offsets and every offset below
  \<open>tetrahedral L\<close> is attained.
\<close>

theorem r_index_bijection:
  assumes "0 \<le> L" "L \<le> 8"
  shows "bij_betw (\<lambda>(t, u, v). r_index t u v) (shell_triples L) {0 ..< tetrahedral L}"
  unfolding bij_betw_def
proof
  show "inj_on (\<lambda>(t, u, v). r_index t u v) (shell_triples L)"
    unfolding inj_on_def shell_triples_def using r_index_inj by auto
  show "(\<lambda>(t, u, v). r_index t u v) ` shell_triples L = {0 ..< tetrahedral L}"
  proof (intro set_eqI iffI)
    fix k assume "k \<in> (\<lambda>(t, u, v). r_index t u v) ` shell_triples L"
    then show "k \<in> {0 ..< tetrahedral L}"
      unfolding shell_triples_def using r_index_bounds by auto
  next
    fix k assume "k \<in> {0 ..< tetrahedral L}"
    then obtain t u v where "0 \<le> t" "0 \<le> u" "0 \<le> v" "t + u + v \<le> L" "r_index t u v = k"
      using r_index_cover[of L k] assms by auto
    then show "k \<in> (\<lambda>(t, u, v). r_index t u v) ` shell_triples L"
      unfolding shell_triples_def by force
  qed
qed

theorem r_index_bijection_witness:
  "bij_betw (\<lambda>(t, u, v). r_index t u v) (shell_triples 2) {0 ..< tetrahedral 2}"
  using r_index_bijection [of 2] by simp

section \<open>Arrays and loops\<close>

lemma arr_get_in: "0 \<le> i \<Longrightarrow> i < int (length a) \<Longrightarrow> arr_get a i = Some (a ! nat i)"
  by (simp add: arr_get_def)

lemma arr_set_in: "0 \<le> i \<Longrightarrow> i < int (length a) \<Longrightarrow> arr_set a i x = Some (a[nat i := x])"
  by (simp add: arr_set_def)

lemma arr_get_Some_iff: "(\<exists>x. arr_get a i = Some x) \<longleftrightarrow> 0 \<le> i \<and> i < int (length a)"
  by (simp add: arr_get_def)

lemma arr_set_Some_iff: "(\<exists>b. arr_set a i x = Some b) \<longleftrightarrow> 0 \<le> i \<and> i < int (length a)"
  by (simp add: arr_set_def)

lemma nth_update_int:
  "0 \<le> i \<Longrightarrow> 0 \<le> j \<Longrightarrow> i < int (length a) \<Longrightarrow>
     (a[nat i := x]) ! nat j = (if j = i then x else a ! nat j)"
  by (auto simp: nth_list_update nat_eq_iff)

lemma zero_array_length [simp]: "length (zero_array n) = nat n"
  by (simp add: zero_array_def)

lemma zero_array_nth: "0 \<le> j \<Longrightarrow> j < n \<Longrightarrow> zero_array n ! nat j = 0"
  by (simp add: zero_array_def)

lemma for_lt_rule:
  assumes "lo \<le> hi" and "I lo s"
    and step: "\<And>i s. lo \<le> i \<Longrightarrow> i < hi \<Longrightarrow> I i s \<Longrightarrow> \<exists>s'. body i s = Some s' \<and> I (i + 1) s'"
  shows "\<exists>s'. for_lt lo hi body s = Some s' \<and> I hi s'"
proof -
  have "\<And>i s. lo \<le> i \<Longrightarrow> i \<le> hi \<Longrightarrow> I i s \<Longrightarrow> k = nat (hi - i) \<Longrightarrow>
          \<exists>s'. for_lt i hi body s = Some s' \<and> I hi s'" for k
  proof (induction k)
    case 0
    then have "i = hi" by simp
    with 0 show ?case by (subst for_lt.simps) simp
  next
    case (Suc k)
    then have lt: "i < hi" by simp
    from step[OF Suc.prems(1) lt Suc.prems(3)]
    obtain s1 where s1: "body i s = Some s1" "I (i + 1) s1" by blast
    have "\<exists>s'. for_lt (i + 1) hi body s1 = Some s' \<and> I hi s'"
      using Suc.prems lt s1 by (intro Suc.IH) simp_all
    then show ?case using lt s1 by (subst for_lt.simps) simp
  qed
  from this[of lo s "nat (hi - lo)"] assms(1,2) show ?thesis by simp
qed

lemma for_le_rule:
  assumes "lo \<le> hi + 1" and "I lo s"
    and step: "\<And>i s. lo \<le> i \<Longrightarrow> i \<le> hi \<Longrightarrow> I i s \<Longrightarrow> \<exists>s'. body i s = Some s' \<and> I (i + 1) s'"
  shows "\<exists>s'. for_le lo hi body s = Some s' \<and> I (hi + 1) s'"
  unfolding for_le_def using assms by (intro for_lt_rule) simp_all

lemma for_down_rule:
  assumes "lo - 1 \<le> hi" and "I hi s"
    and step: "\<And>i s. lo \<le> i \<Longrightarrow> i \<le> hi \<Longrightarrow> I i s \<Longrightarrow> \<exists>s'. body i s = Some s' \<and> I (i - 1) s'"
  shows "\<exists>s'. for_down hi lo body s = Some s' \<and> I (lo - 1) s'"
proof -
  have "\<And>i s. lo - 1 \<le> i \<Longrightarrow> i \<le> hi \<Longrightarrow> I i s \<Longrightarrow> k = nat (i - lo + 1) \<Longrightarrow>
          \<exists>s'. for_down i lo body s = Some s' \<and> I (lo - 1) s'" for k
  proof (induction k)
    case 0
    then have "i = lo - 1" by simp
    with 0 show ?case by (subst for_down.simps) simp
  next
    case (Suc k)
    then have ge: "lo \<le> i" by simp
    from step[OF ge Suc.prems(2) Suc.prems(3)]
    obtain s1 where s1: "body i s = Some s1" "I (i - 1) s1" by blast
    have "\<exists>s'. for_down (i - 1) lo body s1 = Some s' \<and> I (lo - 1) s'"
      using Suc.prems ge s1 by (intro Suc.IH) simp_all
    then show ?case using ge s1 by (subst for_down.simps) simp
  qed
  from this[of hi s "nat (hi - lo + 1)"] assms(1,2) show ?thesis by simp
qed

section \<open>The Hermite-E evaluators\<close>

lemma HermiteE_outside:
  "t < 0 \<or> nA + nB < t \<or> nA < 0 \<or> nB < 0 \<Longrightarrow> HermiteE nA nB t PA PB p = 0"
  by (subst HermiteE.simps) auto

lemma HermiteE_base: "HermiteE 0 0 t PA PB p = (if t = 0 then 1 else 0)"
  by (subst HermiteE.simps) simp

lemma HermiteE_step_A:
  assumes "0 < nA" "0 \<le> nB" "0 \<le> t" "t \<le> nA + nB"
  shows "HermiteE nA nB t PA PB p =
           (if t = 0 then 0 else 0.5 / p * HermiteE (nA - 1) nB (t - 1) PA PB p)
             + PA * HermiteE (nA - 1) nB t PA PB p
             + of_int (t + 1) * HermiteE (nA - 1) nB (t + 1) PA PB p"
  using assms by (subst HermiteE.simps) auto

lemma HermiteE_step_B:
  assumes "0 < nB" "0 \<le> t" "t \<le> nB"
  shows "HermiteE 0 nB t PA PB p =
           (if t = 0 then 0 else 0.5 / p * HermiteE 0 (nB - 1) (t - 1) PA PB p)
             + PB * HermiteE 0 (nB - 1) t PA PB p
             + of_int (t + 1) * HermiteE 0 (nB - 1) (t + 1) PA PB p"
  using assms by (subst HermiteE.simps) auto


lemma filled_first:
  assumes "1 \<le> n" "1 < int (length prev)" "0 < int (length result0)"
  shows "\<exists>r. (do { p0 \<leftarrow> arr_get prev 0; p1 \<leftarrow> arr_get prev 1; arr_set result0 0 (X * p0 + p1) }) = Some r
            \<and> filled n X inv2p prev result0 1 r"
proof -
  have g0: "arr_get prev 0 = Some (prev ! nat 0)" using assms by (intro arr_get_in; linarith)
  have g1: "arr_get prev 1 = Some (prev ! nat 1)" using assms by (intro arr_get_in; linarith)
  have s0: "arr_set result0 0 w = Some (result0[nat 0 := w])" for w
    using assms by (intro arr_set_in; linarith)
  have j0: "(0 \<le> j \<and> j < 1) \<longleftrightarrow> j = 0" for j :: int by auto
  have ne: "0 < length result0" using assms by linarith
  have "filled n X inv2p prev result0 1 (result0[nat 0 := X * prev ! nat 0 + prev ! nat 1])"
    unfolding filled_def layer_entry_def j0 using assms ne by (auto simp: nth_list_update)
  then show ?thesis by (simp add: g0 g1 s0)
qed

lemma filled_middle:
  assumes "1 \<le> t" "t < n" "t + 1 < int (length prev)" "t < int (length result0)"
    and "filled n X inv2p prev result0 t r"
  shows "\<exists>r'. (do { a \<leftarrow> arr_get prev (t - 1); b \<leftarrow> arr_get prev t; c \<leftarrow> arr_get prev (t + 1);
                     arr_set r t (inv2p * a + X * b + of_int (t + 1) * c) }) = Some r'
            \<and> filled n X inv2p prev result0 (t + 1) r'"
proof -
  have len: "length r = length result0" using assms(5) by (simp add: filled_def)
  have "filled n X inv2p prev result0 (t + 1)
          (r[nat t := inv2p * prev ! nat (t - 1) + X * prev ! nat t + of_int (t + 1) * prev ! nat (t + 1)])"
    using assms len unfolding filled_def
    by (auto simp: nth_update_int layer_entry_def)
  then show ?thesis using assms len by (simp add: arr_get_in arr_set_in)
qed

lemma filled_top:
  assumes "1 \<le> n" "n < int (length prev)" "n < int (length result0)"
    and "filled n X inv2p prev result0 n r"
  shows "\<exists>r'. (do { a \<leftarrow> arr_get prev (n - 1); b \<leftarrow> arr_get prev n;
                     arr_set r n (inv2p * a + X * b) }) = Some r'
            \<and> filled n X inv2p prev result0 (n + 1) r'"
proof -
  have len: "length r = length result0" using assms(4) by (simp add: filled_def)
  have "filled n X inv2p prev result0 (n + 1)
          (r[nat n := inv2p * prev ! nat (n - 1) + X * prev ! nat n])"
    using assms len unfolding filled_def
    by (auto simp: nth_update_int layer_entry_def)
  then show ?thesis using assms len by (simp add: arr_get_in arr_set_in)
qed

lemma filled_loop:
  assumes "1 \<le> k" "k \<le> n" "k < int (length prev)" "k \<le> int (length result0)"
    and "filled n X inv2p prev result0 1 r"
  shows "\<exists>r'. for_lt 1 k (\<lambda>t result. do {
                   a \<leftarrow> arr_get prev (t - 1); b \<leftarrow> arr_get prev t; c \<leftarrow> arr_get prev (t + 1);
                   arr_set result t (inv2p * a + X * b + of_int (t + 1) * c) }) r = Some r'
            \<and> filled n X inv2p prev result0 k r'"
  using assms by (intro for_lt_rule[where I = "filled n X inv2p prev result0"] filled_middle) simp_all

lemma HermiteELayer_fill_A_filled:
  assumes "nA + nB = n" "1 \<le> n" "n < int (length prev)" "n < int (length result0)"
  shows "\<exists>r. HermiteELayer_fill_A nA nB PA inv2p prev result0 = Some r
            \<and> filled n PA inv2p prev result0 (n + 1) r"
proof -
  have l: "1 < int (length prev)" "0 < int (length result0)" "n \<le> int (length result0)"
    using assms by linarith+
  from filled_first[OF assms(2) l(1,2), of PA inv2p]
  obtain r1 where r1: "(do { p0 \<leftarrow> arr_get prev 0; p1 \<leftarrow> arr_get prev 1; arr_set result0 0 (PA * p0 + p1) }) = Some r1"
    "filled n PA inv2p prev result0 1 r1" by blast
  from filled_loop[OF assms(2) order_refl assms(3) l(3) r1(2)]
  obtain r2 where r2: "for_lt 1 n (\<lambda>t result. do {
                   a \<leftarrow> arr_get prev (t - 1); b \<leftarrow> arr_get prev t; c \<leftarrow> arr_get prev (t + 1);
                   arr_set result t (inv2p * a + PA * b + of_int (t + 1) * c) }) r1 = Some r2"
    "filled n PA inv2p prev result0 n r2" by blast
  from filled_top[OF assms(2-4) r2(2)]
  obtain r3 where r3: "(do { a \<leftarrow> arr_get prev (n - 1); b \<leftarrow> arr_get prev n;
                     arr_set r2 n (inv2p * a + PA * b) }) = Some r3"
    "filled n PA inv2p prev result0 (n + 1) r3" by blast
  have "HermiteELayer_fill_A nA nB PA inv2p prev result0 = Some r3"
    using r1(1) r2(1) r3(1) assms(1,2)
    unfolding HermiteELayer_fill_A_def
    by (auto simp: Let_def bind_eq_Some_conv)
  with r3(2) show ?thesis by blast
qed

lemma HermiteELayer_fill_B_filled:
  assumes "1 \<le> n" "n < int (length prev)" "n < int (length result0)"
  shows "\<exists>r. HermiteELayer_fill_B n PB inv2p prev result0 = Some r
            \<and> filled n PB inv2p prev result0 (n + 1) r"
proof -
  have l: "1 < int (length prev)" "0 < int (length result0)" "n \<le> int (length result0)"
    using assms by linarith+
  from filled_first[OF assms(1) l(1,2), of PB inv2p]
  obtain r1 where r1: "(do { p0 \<leftarrow> arr_get prev 0; p1 \<leftarrow> arr_get prev 1; arr_set result0 0 (PB * p0 + p1) }) = Some r1"
    "filled n PB inv2p prev result0 1 r1" by blast
  from filled_loop[OF assms(1) order_refl assms(2) l(3) r1(2)]
  obtain r2 where r2: "for_lt 1 n (\<lambda>t result. do {
                   a \<leftarrow> arr_get prev (t - 1); b \<leftarrow> arr_get prev t; c \<leftarrow> arr_get prev (t + 1);
                   arr_set result t (inv2p * a + PB * b + of_int (t + 1) * c) }) r1 = Some r2"
    "filled n PB inv2p prev result0 n r2" by blast
  from filled_top[OF assms r2(2)]
  obtain r3 where r3: "(do { a \<leftarrow> arr_get prev (n - 1); b \<leftarrow> arr_get prev n;
                     arr_set r2 n (inv2p * a + PB * b) }) = Some r3"
    "filled n PB inv2p prev result0 (n + 1) r3" by blast
  have "HermiteELayer_fill_B n PB inv2p prev result0 = Some r3"
    using r1(1) r2(1) r3(1) assms(1)
    unfolding HermiteELayer_fill_B_def
    by (auto simp: Let_def bind_eq_Some_conv)
  with r3(2) show ?thesis by blast
qed

lemma HermiteECoeffLayer_fill_filled:
  assumes "1 \<le> n" "n < int (length prev)" "n \<le> int (length out0)"
  shows "\<exists>r. HermiteECoeffLayer_fill n X p prev out0 = Some r
            \<and> filled n X (0.5 / p) prev out0 n r"
proof -
  have l: "1 < int (length prev)" "0 < int (length out0)"
    using assms by linarith+
  from filled_first[OF assms(1) l(1,2), of X "0.5 / p"]
  obtain r1 where r1: "(do { p0 \<leftarrow> arr_get prev 0; p1 \<leftarrow> arr_get prev 1; arr_set out0 0 (X * p0 + p1) }) = Some r1"
    "filled n X (0.5 / p) prev out0 1 r1" by blast
  from filled_loop[OF assms(1) order_refl assms(2,3) r1(2)]
  obtain r2 where r2: "for_lt 1 n (\<lambda>t result. do {
                   a \<leftarrow> arr_get prev (t - 1); b \<leftarrow> arr_get prev t; c \<leftarrow> arr_get prev (t + 1);
                   arr_set result t (0.5 / p * a + X * b + of_int (t + 1) * c) }) r1 = Some r2"
    "filled n X (0.5 / p) prev out0 n r2" by blast
  have "HermiteECoeffLayer_fill n X p prev out0 = Some r2"
    using r1(1) r2(1) assms(1)
    unfolding HermiteECoeffLayer_fill_def
    by (auto simp: Let_def bind_eq_Some_conv)
  with r2(2) show ?thesis by blast
qed

lemma filled_nth:
  assumes "filled n X inv2p prev result0 k r" "0 \<le> j" "j < k"
  shows "r ! nat j = layer_entry n X inv2p prev j"
  using assms by (simp add: filled_def)

lemma filled_rest:
  assumes "filled n X inv2p prev result0 k r" "k \<le> j"
  shows "r ! nat j = result0 ! nat j"
  using assms by (simp add: filled_def)

lemma filled_length:
  assumes "filled n X inv2p prev result0 k r"
  shows "length r = length result0"
  using assms by (simp add: filled_def)

lemma MAX_T_val [simp]: "MAX_T = 9"
  by (simp add: MAX_T_def MAX_L_def)

lemma layer_entry_A:
  assumes "0 < nA" "0 \<le> nB" "0 \<le> t" "t \<le> nA + nB" "nA + nB \<le> m"
    and pv: "\<And>j. 0 \<le> j \<Longrightarrow> j \<le> m \<Longrightarrow> prev ! nat j = HermiteE (nA - 1) nB j PA PB p"
  shows "layer_entry m PA (0.5 / p) prev t = HermiteE nA nB t PA PB p"
proof -
  have top: "HermiteE (nA - 1) nB (t + 1) PA PB p = 0" if "\<not> t < m"
    using that assms(1-5) by (intro HermiteE_outside) simp
  have p1: "prev ! nat (t + 1) = HermiteE (nA - 1) nB (t + 1) PA PB p" if "t < m"
    using that assms(3) by (intro pv) simp_all
  have p0: "prev ! nat t = HermiteE (nA - 1) nB t PA PB p"
    using assms(3-5) by (intro pv) simp_all
  have p2: "prev ! nat (t - 1) = HermiteE (nA - 1) nB (t - 1) PA PB p" if "t \<noteq> 0"
    using that assms(3-5) by (intro pv) simp_all
  show ?thesis
    unfolding layer_entry_def HermiteE_step_A[OF assms(1-4)]
    using top p1 p0 p2 by (cases "t < m"; cases "t = 0"; simp)
qed

lemma layer_entry_B:
  assumes "0 < nB" "0 \<le> t" "t \<le> nB" "nB \<le> m"
    and pv: "\<And>j. 0 \<le> j \<Longrightarrow> j \<le> m \<Longrightarrow> prev ! nat j = HermiteE 0 (nB - 1) j PA PB p"
  shows "layer_entry m PB (0.5 / p) prev t = HermiteE 0 nB t PA PB p"
proof -
  have top: "HermiteE 0 (nB - 1) (t + 1) PA PB p = 0" if "\<not> t < m"
    using that assms(1-4) by (intro HermiteE_outside) simp
  have p1: "prev ! nat (t + 1) = HermiteE 0 (nB - 1) (t + 1) PA PB p" if "t < m"
    using that assms(2) by (intro pv) simp_all
  have p0: "prev ! nat t = HermiteE 0 (nB - 1) t PA PB p"
    using assms(2-4) by (intro pv) simp_all
  have p2: "prev ! nat (t - 1) = HermiteE 0 (nB - 1) (t - 1) PA PB p" if "t \<noteq> 0"
    using that assms(2-4) by (intro pv) simp_all
  show ?thesis
    unfolding layer_entry_def HermiteE_step_B[OF assms(1-3)]
    using top p1 p0 p2 by (cases "t < m"; cases "t = 0"; simp)
qed

lemma HermiteELayer_base: "\<exists>r. HermiteELayer_compute 0 0 PA PB p = Some r \<and> layer_matches 0 0 PA PB p r"
proof -
  have "layer_matches 0 0 PA PB p ((zero_array MAX_T)[nat 0 := 1])"
    unfolding layer_matches_def
    by (auto simp: HermiteE_base nth_update_int zero_array_nth)
  then show ?thesis
    by (subst HermiteELayer_compute.simps) (simp add: arr_set_def)
qed

lemma HermiteELayer_B_chain:
  "0 \<le> nB \<Longrightarrow> nB < MAX_T \<Longrightarrow>
     \<exists>r. HermiteELayer_compute 0 nB PA PB p = Some r \<and> layer_matches 0 nB PA PB p r"
proof (induction nB rule: int_ge_induct)
  case base show ?case by (rule HermiteELayer_base)
next
  case (step i)
  then obtain prev where prev: "HermiteELayer_compute 0 i PA PB p = Some prev"
    "layer_matches 0 i PA PB p prev" by auto
  have lens: "i + 1 < int (length prev)" "i + 1 < int (length (zero_array MAX_T))"
    using prev(2) step by (simp_all add: layer_matches_def)
  from HermiteELayer_fill_B_filled[OF _ lens, of PB "0.5 / p"] step
  obtain r where r: "HermiteELayer_fill_B (i + 1) PB (0.5 / p) prev (zero_array MAX_T) = Some r"
    "filled (i + 1) PB (0.5 / p) prev (zero_array MAX_T) (i + 1 + 1) r" by auto
  have "r ! nat t = HermiteE 0 (i + 1) t PA PB p" if t: "0 \<le> t" "t < MAX_T" for t
  proof (cases "t \<le> i + 1")
    case True
    have "layer_entry (i + 1) PB (0.5 / p) prev t = HermiteE 0 (i + 1) t PA PB p"
      using step t True prev(2) by (intro layer_entry_B) (simp_all add: layer_matches_def)
    then show ?thesis using filled_nth[OF r(2) t(1)] True by simp
  next
    case False
    then have "r ! nat t = zero_array MAX_T ! nat t" by (intro filled_rest[OF r(2)]) simp
    moreover have "HermiteE 0 (i + 1) t PA PB p = 0" using False by (intro HermiteE_outside) simp
    ultimately show ?thesis using t by (simp add: zero_array_nth)
  qed
  then have "layer_matches 0 (i + 1) PA PB p r"
    using filled_length[OF r(2)] by (simp add: layer_matches_def)
  moreover have "HermiteELayer_compute 0 (i + 1) PA PB p = Some r"
    using step prev(1) r(1) by (subst HermiteELayer_compute.simps) (simp add: Let_def)
  ultimately show ?case by blast
qed

lemma HermiteELayer_A_chain:
  "0 \<le> nA \<Longrightarrow> 0 \<le> nB \<Longrightarrow> nA + nB < MAX_T \<Longrightarrow>
     \<exists>r. HermiteELayer_compute nA nB PA PB p = Some r \<and> layer_matches nA nB PA PB p r"
proof (induction nA rule: int_ge_induct)
  case base then show ?case by (intro HermiteELayer_B_chain) simp_all
next
  case (step i)
  then obtain prev where prev: "HermiteELayer_compute i nB PA PB p = Some prev"
    "layer_matches i nB PA PB p prev" by auto
  have lens: "i + 1 + nB < int (length prev)" "i + 1 + nB < int (length (zero_array MAX_T))"
    using prev(2) step by (simp_all add: layer_matches_def)
  from HermiteELayer_fill_A_filled[OF refl _ lens, of PA "0.5 / p"] step
  obtain r where r: "HermiteELayer_fill_A (i + 1) nB PA (0.5 / p) prev (zero_array MAX_T) = Some r"
    "filled (i + 1 + nB) PA (0.5 / p) prev (zero_array MAX_T) (i + 1 + nB + 1) r" by auto
  have "r ! nat t = HermiteE (i + 1) nB t PA PB p" if t: "0 \<le> t" "t < MAX_T" for t
  proof (cases "t \<le> i + 1 + nB")
    case True
    have "layer_entry (i + 1 + nB) PA (0.5 / p) prev t = HermiteE (i + 1) nB t PA PB p"
      using step t True prev(2) by (intro layer_entry_A) (simp_all add: layer_matches_def)
    then show ?thesis using filled_nth[OF r(2) t(1)] True by simp
  next
    case False
    then have "r ! nat t = zero_array MAX_T ! nat t" by (intro filled_rest[OF r(2)]) simp
    moreover have "HermiteE (i + 1) nB t PA PB p = 0" using False by (intro HermiteE_outside) simp
    ultimately show ?thesis using t by (simp add: zero_array_nth)
  qed
  then have "layer_matches (i + 1) nB PA PB p r"
    using filled_length[OF r(2)] by (simp add: layer_matches_def)
  moreover have "HermiteELayer_compute (i + 1) nB PA PB p = Some r"
    using step prev(1) r(1) by (subst HermiteELayer_compute.simps) (simp add: Let_def)
  ultimately show ?case by blast
qed


lemma HermiteECoeffLayer_base:
  assumes "0 < int (length out)"
  shows "\<exists>r. HermiteECoeffLayer_compute 0 0 out PA PB p = Some r \<and> coeff_layer 0 0 PA PB p out r"
proof -
  have j0: "(0 \<le> j \<and> j \<le> 0) \<longleftrightarrow> j = 0" for j :: int by auto
  have "coeff_layer 0 0 PA PB p out (out[nat 0 := 1])"
    unfolding coeff_layer_def using assms
    by (auto simp: HermiteE_base nth_list_update j0)
  then show ?thesis using assms
    by (subst HermiteECoeffLayer_compute.simps) (simp add: arr_set_def)
qed

lemma coeff_layer_prev:
  assumes "coeff_layer nA nB PA PB p (zero_array m) prev" "0 \<le> j" "j < m" "0 \<le> nA" "0 \<le> nB"
  shows "prev ! nat j = HermiteE nA nB j PA PB p"
proof (cases "j \<le> nA + nB")
  case True
  with assms show ?thesis by (simp add: coeff_layer_def)
next
  case False
  then have "prev ! nat j = zero_array m ! nat j" using assms by (simp add: coeff_layer_def)
  moreover have "HermiteE nA nB j PA PB p = 0" using False by (intro HermiteE_outside) simp
  ultimately show ?thesis using assms by (simp add: zero_array_nth)
qed

lemma HermiteECoeffLayer_B_chain:
  "0 \<le> nB \<Longrightarrow> nB < int (length out) \<Longrightarrow>
     \<exists>r. HermiteECoeffLayer_compute 0 nB out PA PB p = Some r \<and> coeff_layer 0 nB PA PB p out r"
proof (induction nB arbitrary: out rule: int_ge_induct)
  case base then show ?case by (intro HermiteECoeffLayer_base) simp
next
  case (step i)
  have "i < int (length (zero_array (0 + (i + 1) + 2)))" using step by simp
  from step.IH[OF this]
  obtain prev where prev: "HermiteECoeffLayer_compute 0 i (zero_array (0 + (i + 1) + 2)) PA PB p = Some prev"
    "coeff_layer 0 i PA PB p (zero_array (0 + (i + 1) + 2)) prev" by auto
  have lens: "i + 2 < int (length prev)" "i + 2 \<le> int (length out)"
    using prev(2) step by (simp_all add: coeff_layer_def)
  from HermiteECoeffLayer_fill_filled[OF _ lens, of PB p] step
  obtain r where r: "HermiteECoeffLayer_fill (i + 2) PB p prev out = Some r"
    "filled (i + 2) PB (0.5 / p) prev out (i + 2) r" by auto
  have pv: "prev ! nat j = HermiteE 0 i j PA PB p" if "0 \<le> j" "j \<le> i + 2" for j
    using coeff_layer_prev[OF prev(2)] that step by simp
  have "r ! nat t = HermiteE 0 (i + 1) t PA PB p" if t: "0 \<le> t" "t \<le> i + 1" for t
  proof -
    have "layer_entry (i + 2) PB (0.5 / p) prev t = HermiteE 0 (i + 1) t PA PB p"
      using step t pv by (intro layer_entry_B) simp_all
    then show ?thesis using filled_nth[OF r(2) t(1)] t by simp
  qed
  moreover have "r ! nat j = out ! nat j" if "i + 1 < j" for j
    using that by (intro filled_rest[OF r(2)]) simp
  ultimately have "coeff_layer 0 (i + 1) PA PB p out r"
    using filled_length[OF r(2)] by (simp add: coeff_layer_def)
  moreover have "HermiteECoeffLayer_compute 0 (i + 1) out PA PB p = Some r"
    using step prev(1) r(1) by (subst HermiteECoeffLayer_compute.simps) (simp add: add.commute)
  ultimately show ?case by blast
qed

lemma HermiteECoeffLayer_A_chain:
  "0 \<le> nA \<Longrightarrow> 0 \<le> nB \<Longrightarrow> nA + nB < int (length out) \<Longrightarrow>
     \<exists>r. HermiteECoeffLayer_compute nA nB out PA PB p = Some r \<and> coeff_layer nA nB PA PB p out r"
proof (induction nA arbitrary: out rule: int_ge_induct)
  case base then show ?case by (intro HermiteECoeffLayer_B_chain) simp_all
next
  case (step i)
  have "i + nB < int (length (zero_array (i + 1 + nB + 2)))" using step by simp
  from step.IH[OF step.prems(1) this]
  obtain prev where prev: "HermiteECoeffLayer_compute i nB (zero_array (i + 1 + nB + 2)) PA PB p = Some prev"
    "coeff_layer i nB PA PB p (zero_array (i + 1 + nB + 2)) prev" by auto
  have lens: "i + 1 + nB + 1 < int (length prev)" "i + 1 + nB + 1 \<le> int (length out)"
    using prev(2) step by (simp_all add: coeff_layer_def)
  from HermiteECoeffLayer_fill_filled[OF _ lens, of PA p] step
  obtain r where r: "HermiteECoeffLayer_fill (i + 1 + nB + 1) PA p prev out = Some r"
    "filled (i + 1 + nB + 1) PA (0.5 / p) prev out (i + 1 + nB + 1) r" by auto
  have pv: "prev ! nat j = HermiteE i nB j PA PB p" if "0 \<le> j" "j \<le> i + 1 + nB + 1" for j
    using coeff_layer_prev[OF prev(2)] that step by simp
  have "r ! nat t = HermiteE (i + 1) nB t PA PB p" if t: "0 \<le> t" "t \<le> i + 1 + nB" for t
  proof -
    have "layer_entry (i + 1 + nB + 1) PA (0.5 / p) prev t = HermiteE (i + 1) nB t PA PB p"
      using step t pv by (intro layer_entry_A) simp_all
    then show ?thesis using filled_nth[OF r(2) t(1)] t by simp
  qed
  moreover have "r ! nat j = out ! nat j" if "i + 1 + nB < j" for j
    using that by (intro filled_rest[OF r(2)]) simp
  ultimately have "coeff_layer (i + 1) nB PA PB p out r"
    using filled_length[OF r(2)] by (simp add: coeff_layer_def)
  moreover have "HermiteECoeffLayer_compute (i + 1) nB out PA PB p = Some r"
    using step prev(1) r(1) by (subst HermiteECoeffLayer_compute.simps) auto
  ultimately show ?case by blast
qed

section \<open>The Coulomb-R evaluators\<close>

lemma r_index_000 [simp]: "r_index 0 0 0 = 0"
  by (simp add: r_index_def)

lemma shell_filled_weaken:
  assumes "shell_filled D M val len c"
    and "\<And>t u v. 0 \<le> t \<Longrightarrow> 0 \<le> u \<Longrightarrow> 0 \<le> v \<Longrightarrow> t + u + v \<le> M \<Longrightarrow> D' t u v \<Longrightarrow> D t u v"
  shows "shell_filled D' M val len c"
  using assms unfolding shell_filled_def by blast

lemma shell_filled_write:
  assumes c: "shell_filled D M val len c"
    and tuv: "0 \<le> t" "0 \<le> u" "0 \<le> v" "t + u + v \<le> M"
    and len: "tetrahedral M \<le> int len"
    and D': "\<And>t' u' v'. 0 \<le> t' \<Longrightarrow> 0 \<le> u' \<Longrightarrow> 0 \<le> v' \<Longrightarrow> t' + u' + v' \<le> M \<Longrightarrow> D' t' u' v'
                \<Longrightarrow> D t' u' v' \<or> (t' = t \<and> u' = u \<and> v' = v)"
  shows "shell_filled D' M val len (c[nat (r_index t u v) := val t u v])"
  unfolding shell_filled_def
proof (intro conjI allI impI)
  show "length (c[nat (r_index t u v) := val t u v]) = len"
    using c by (simp add: shell_filled_def)
next
  fix t' u' v'
  assume a: "0 \<le> t' \<and> 0 \<le> u' \<and> 0 \<le> v' \<and> t' + u' + v' \<le> M \<and> D' t' u' v'"
  have lc: "length c = len" using c by (simp add: shell_filled_def)
  have b: "0 \<le> r_index t u v" "r_index t u v < tetrahedral M"
    using tuv by (simp_all add: r_index_bounds)
  show "c[nat (r_index t u v) := val t u v] ! nat (r_index t' u' v') = val t' u' v'"
  proof (cases "t' = t \<and> u' = u \<and> v' = v")
    case True
    then show ?thesis using b len lc by simp
  next
    case False
    then have "r_index t' u' v' \<noteq> r_index t u v"
      using r_index_inj[of t' u' v' t u v] a tuv by auto
    moreover have "0 \<le> r_index t' u' v'" using a by (intro r_index_bounds(1)[of _ _ _ M]) simp_all
    ultimately have "nat (r_index t' u' v') \<noteq> nat (r_index t u v)" using b by simp
    moreover have "D t' u' v'" using D'[of t' u' v'] a False by blast
    ultimately show ?thesis using c a by (simp add: shell_filled_def)
  qed
qed

lemma CoulombRLayer_entry_in:
  assumes "0 \<le> i1" "i1 < int (length prev)"
    and "1 < k \<Longrightarrow> 0 \<le> i2 \<and> i2 < int (length prev)"
    and "0 \<le> i" "i < int (length c)"
  shows "CoulombRLayer_entry PC k prev i1 i2 i c =
           Some (c[nat i := PC * prev ! nat i1 + (if 1 < k then of_int (k - 1) * prev ! nat i2 else 0)])"
  using assms unfolding CoulombRLayer_entry_def
  by (simp add: arr_get_in arr_set_in Let_def)

lemma prev_index:
  assumes "0 \<le> t" "0 \<le> u" "0 \<le> v" "t + u + v \<le> M - 1" "tetrahedral (M - 1) \<le> int (length prev)"
  shows "0 \<le> r_index t u v \<and> r_index t u v < int (length prev)"
  using r_index_bounds[OF assms(1-4)] assms(5) by simp

lemma curr_index:
  assumes "0 \<le> t" "0 \<le> u" "0 \<le> v" "t + u + v \<le> M" "tetrahedral M \<le> int len" "length c = len"
  shows "0 \<le> r_index t u v" "r_index t u v < int (length c)"
  using r_index_bounds[OF assms(1-4)] assms(5,6) by simp_all

lemma entry_step_z:
  assumes c: "shell_filled D M (shell_value PCx PCy PCz Boys N prev) len c"
    and v: "1 \<le> v" "v \<le> M"
    and lens: "tetrahedral (M - 1) \<le> int (length prev)" "tetrahedral M \<le> int len"
    and D': "\<And>t' u' v'. 0 \<le> t' \<Longrightarrow> 0 \<le> u' \<Longrightarrow> 0 \<le> v' \<Longrightarrow> t' + u' + v' \<le> M \<Longrightarrow> D' t' u' v'
                \<Longrightarrow> D t' u' v' \<or> (t' = 0 \<and> u' = 0 \<and> v' = v)"
  shows "\<exists>c'. CoulombRLayer_entry PCz v prev (r_index 0 0 (v - 1)) (r_index 0 0 (v - 2)) (r_index 0 0 v) c
               = Some c'
           \<and> shell_filled D' M (shell_value PCx PCy PCz Boys N prev) len c'"
proof -
  have lc: "length c = len" using c by (simp add: shell_filled_def)
  have i1: "0 \<le> r_index 0 0 (v - 1) \<and> r_index 0 0 (v - 1) < int (length prev)"
    using v lens by (intro prev_index[of _ _ _ M]) simp_all
  have i2: "0 \<le> r_index 0 0 (v - 2) \<and> r_index 0 0 (v - 2) < int (length prev)" if "1 < v"
    using v lens that by (intro prev_index[of _ _ _ M]) simp_all
  have i: "0 \<le> r_index 0 0 v" "r_index 0 0 v < int (length c)"
    using curr_index[of 0 0 v M len c] v lens lc by simp_all
  have val: "PCz * prev ! nat (r_index 0 0 (v - 1))
               + (if 1 < v then of_int (v - 1) * prev ! nat (r_index 0 0 (v - 2)) else 0)
             = shell_value PCx PCy PCz Boys N prev 0 0 v"
    using v by (simp add: shell_value_def)
  have "shell_filled D' M (shell_value PCx PCy PCz Boys N prev) len
          (c[nat (r_index 0 0 v) := shell_value PCx PCy PCz Boys N prev 0 0 v])"
    using v lens by (intro shell_filled_write[OF c] D') simp_all
  then show ?thesis
    using CoulombRLayer_entry_in[of "r_index 0 0 (v - 1)" prev v "r_index 0 0 (v - 2)" "r_index 0 0 v" c PCz]
      i1 i2 i val by simp
qed

lemma entry_step_y:
  assumes c: "shell_filled D M (shell_value PCx PCy PCz Boys N prev) len c"
    and uv: "1 \<le> u" "0 \<le> v" "u + v \<le> M"
    and lens: "tetrahedral (M - 1) \<le> int (length prev)" "tetrahedral M \<le> int len"
    and D': "\<And>t' u' v'. 0 \<le> t' \<Longrightarrow> 0 \<le> u' \<Longrightarrow> 0 \<le> v' \<Longrightarrow> t' + u' + v' \<le> M \<Longrightarrow> D' t' u' v'
                \<Longrightarrow> D t' u' v' \<or> (t' = 0 \<and> u' = u \<and> v' = v)"
  shows "\<exists>c'. CoulombRLayer_entry PCy u prev (r_index 0 (u - 1) v) (r_index 0 (u - 2) v) (r_index 0 u v) c
               = Some c'
           \<and> shell_filled D' M (shell_value PCx PCy PCz Boys N prev) len c'"
proof -
  have lc: "length c = len" using c by (simp add: shell_filled_def)
  have i1: "0 \<le> r_index 0 (u - 1) v \<and> r_index 0 (u - 1) v < int (length prev)"
    using uv lens by (intro prev_index[of _ _ _ M]) simp_all
  have i2: "0 \<le> r_index 0 (u - 2) v \<and> r_index 0 (u - 2) v < int (length prev)" if "1 < u"
    using uv lens that by (intro prev_index[of _ _ _ M]) simp_all
  have i: "0 \<le> r_index 0 u v" "r_index 0 u v < int (length c)"
    using curr_index[of 0 u v M len c] uv lens lc by simp_all
  have val: "PCy * prev ! nat (r_index 0 (u - 1) v)
               + (if 1 < u then of_int (u - 1) * prev ! nat (r_index 0 (u - 2) v) else 0)
             = shell_value PCx PCy PCz Boys N prev 0 u v"
    using uv by (simp add: shell_value_def)
  have "shell_filled D' M (shell_value PCx PCy PCz Boys N prev) len
          (c[nat (r_index 0 u v) := shell_value PCx PCy PCz Boys N prev 0 u v])"
    using uv lens by (intro shell_filled_write[OF c] D') simp_all
  then show ?thesis
    using CoulombRLayer_entry_in[of "r_index 0 (u - 1) v" prev u "r_index 0 (u - 2) v" "r_index 0 u v" c PCy]
      i1 i2 i val by simp
qed

lemma entry_step_x:
  assumes c: "shell_filled D M (shell_value PCx PCy PCz Boys N prev) len c"
    and tuv: "1 \<le> t" "0 \<le> u" "0 \<le> v" "t + u + v \<le> M"
    and lens: "tetrahedral (M - 1) \<le> int (length prev)" "tetrahedral M \<le> int len"
    and D': "\<And>t' u' v'. 0 \<le> t' \<Longrightarrow> 0 \<le> u' \<Longrightarrow> 0 \<le> v' \<Longrightarrow> t' + u' + v' \<le> M \<Longrightarrow> D' t' u' v'
                \<Longrightarrow> D t' u' v' \<or> (t' = t \<and> u' = u \<and> v' = v)"
  shows "\<exists>c'. CoulombRLayer_entry PCx t prev (r_index (t - 1) u v) (r_index (t - 2) u v) (r_index t u v) c
               = Some c'
           \<and> shell_filled D' M (shell_value PCx PCy PCz Boys N prev) len c'"
proof -
  have lc: "length c = len" using c by (simp add: shell_filled_def)
  have i1: "0 \<le> r_index (t - 1) u v \<and> r_index (t - 1) u v < int (length prev)"
    using tuv lens by (intro prev_index[of _ _ _ M]) simp_all
  have i2: "0 \<le> r_index (t - 2) u v \<and> r_index (t - 2) u v < int (length prev)" if "1 < t"
    using tuv lens that by (intro prev_index[of _ _ _ M]) simp_all
  have i: "0 \<le> r_index t u v" "r_index t u v < int (length c)"
    using curr_index[of t u v M len c] tuv lens lc by simp_all
  have val: "PCx * prev ! nat (r_index (t - 1) u v)
               + (if 1 < t then of_int (t - 1) * prev ! nat (r_index (t - 2) u v) else 0)
             = shell_value PCx PCy PCz Boys N prev t u v"
    using tuv by (simp add: shell_value_def)
  have "shell_filled D' M (shell_value PCx PCy PCz Boys N prev) len
          (c[nat (r_index t u v) := shell_value PCx PCy PCz Boys N prev t u v])"
    using tuv lens by (intro shell_filled_write[OF c] D') simp_all
  then show ?thesis
    using CoulombRLayer_entry_in[of "r_index (t - 1) u v" prev t "r_index (t - 2) u v" "r_index t u v" c PCx]
      i1 i2 i val by simp
qed

lemma z_loop:
  assumes c: "shell_filled (\<lambda>t u v. t = 0 \<and> u = 0 \<and> v < 1) M (shell_value PCx PCy PCz Boys N prev) len c"
    and M: "0 \<le> M"
    and lens: "tetrahedral (M - 1) \<le> int (length prev)" "tetrahedral M \<le> int len"
  shows "\<exists>c'. for_le 1 M (\<lambda>v. CoulombRLayer_entry PCz v prev
                    (r_index 0 0 (v - 1)) (r_index 0 0 (v - 2)) (r_index 0 0 v)) c = Some c'
           \<and> shell_filled (\<lambda>t u v. t = 0 \<and> u = 0 \<and> v < M + 1) M (shell_value PCx PCy PCz Boys N prev) len c'"
proof (rule for_le_rule[where I = "\<lambda>i. shell_filled (\<lambda>t u v. t = 0 \<and> u = 0 \<and> v < i) M
       (shell_value PCx PCy PCz Boys N prev) len"])
  show "1 \<le> M + 1" using M by simp
  show "shell_filled (\<lambda>t u v. t = 0 \<and> u = 0 \<and> v < 1) M (shell_value PCx PCy PCz Boys N prev) len c"
    by (rule c)
next
  fix i s
  assume "1 \<le> i" "i \<le> M"
    and "shell_filled (\<lambda>t u v. t = 0 \<and> u = 0 \<and> v < i) M (shell_value PCx PCy PCz Boys N prev) len s"
  then show "\<exists>s'. CoulombRLayer_entry PCz i prev (r_index 0 0 (i - 1)) (r_index 0 0 (i - 2)) (r_index 0 0 i) s = Some s'
      \<and> shell_filled (\<lambda>t u v. t = 0 \<and> u = 0 \<and> v < i + 1) M (shell_value PCx PCy PCz Boys N prev) len s'"
    using lens by (intro entry_step_z) auto
qed

lemma y_loop:
  assumes c: "shell_filled (\<lambda>t u v. t = 0 \<and> u < 1) M (shell_value PCx PCy PCz Boys N prev) len c"
    and M: "0 \<le> M"
    and lens: "tetrahedral (M - 1) \<le> int (length prev)" "tetrahedral M \<le> int len"
  shows "\<exists>c'. for_le 1 M (\<lambda>u. for_le 0 (M - u) (\<lambda>v. CoulombRLayer_entry PCy u prev
                    (r_index 0 (u - 1) v) (r_index 0 (u - 2) v) (r_index 0 u v))) c = Some c'
           \<and> shell_filled (\<lambda>t u v. t = 0 \<and> u < M + 1) M (shell_value PCx PCy PCz Boys N prev) len c'"
proof (rule for_le_rule[where I = "\<lambda>i. shell_filled (\<lambda>t u v. t = 0 \<and> u < i) M
       (shell_value PCx PCy PCz Boys N prev) len"])
  show "1 \<le> M + 1" using M by simp
  show "shell_filled (\<lambda>t u v. t = 0 \<and> u < 1) M (shell_value PCx PCy PCz Boys N prev) len c"
    by (rule c)
next
  fix u s
  assume u: "1 \<le> u" "u \<le> M"
    and s: "shell_filled (\<lambda>t u' v. t = 0 \<and> u' < u) M (shell_value PCx PCy PCz Boys N prev) len s"
  have "\<exists>s'. for_le 0 (M - u) (\<lambda>v. CoulombRLayer_entry PCy u prev
                    (r_index 0 (u - 1) v) (r_index 0 (u - 2) v) (r_index 0 u v)) s = Some s'
      \<and> shell_filled (\<lambda>t u' v'. t = 0 \<and> (u' < u \<or> u' = u \<and> v' < M - u + 1)) M
           (shell_value PCx PCy PCz Boys N prev) len s'"
  proof (rule for_le_rule[where I = "\<lambda>i. shell_filled (\<lambda>t u' v'. t = 0 \<and> (u' < u \<or> u' = u \<and> v' < i)) M
       (shell_value PCx PCy PCz Boys N prev) len"])
    show "0 \<le> M - u + 1" using u by simp
    show "shell_filled (\<lambda>t u' v'. t = 0 \<and> (u' < u \<or> u' = u \<and> v' < 0)) M
            (shell_value PCx PCy PCz Boys N prev) len s"
      by (rule shell_filled_weaken[OF s]) auto
  next
    fix v s1
    assume "0 \<le> v" "v \<le> M - u"
      and "shell_filled (\<lambda>t u' v'. t = 0 \<and> (u' < u \<or> u' = u \<and> v' < v)) M
            (shell_value PCx PCy PCz Boys N prev) len s1"
    then show "\<exists>s'. CoulombRLayer_entry PCy u prev (r_index 0 (u - 1) v) (r_index 0 (u - 2) v) (r_index 0 u v) s1 = Some s'
        \<and> shell_filled (\<lambda>t u' v'. t = 0 \<and> (u' < u \<or> u' = u \<and> v' < v + 1)) M
            (shell_value PCx PCy PCz Boys N prev) len s'"
      using lens u by (intro entry_step_y) auto
  qed
  then obtain s' where s': "for_le 0 (M - u) (\<lambda>v. CoulombRLayer_entry PCy u prev
                    (r_index 0 (u - 1) v) (r_index 0 (u - 2) v) (r_index 0 u v)) s = Some s'"
      "shell_filled (\<lambda>t u' v'. t = 0 \<and> (u' < u \<or> u' = u \<and> v' < M - u + 1)) M
           (shell_value PCx PCy PCz Boys N prev) len s'" by blast
  have "shell_filled (\<lambda>t u' v. t = 0 \<and> u' < u + 1) M (shell_value PCx PCy PCz Boys N prev) len s'"
    by (rule shell_filled_weaken[OF s'(2)]) auto
  with s'(1) show "\<exists>s'. for_le 0 (M - u) (\<lambda>v. CoulombRLayer_entry PCy u prev
                    (r_index 0 (u - 1) v) (r_index 0 (u - 2) v) (r_index 0 u v)) s = Some s'
      \<and> shell_filled (\<lambda>t u' v. t = 0 \<and> u' < u + 1) M (shell_value PCx PCy PCz Boys N prev) len s'"
    by blast
qed


lemma x_loop:
  assumes c: "shell_filled (\<lambda>t u v. t < 1) M (shell_value PCx PCy PCz Boys N prev) len c"
    and M: "0 \<le> M"
    and lens: "tetrahedral (M - 1) \<le> int (length prev)" "tetrahedral M \<le> int len"
  shows "\<exists>c'. for_le 1 M (\<lambda>t. for_le 0 (M - t) (\<lambda>u. for_le 0 (M - t - u) (\<lambda>v.
                  CoulombRLayer_entry PCx t prev
                    (r_index (t - 1) u v) (r_index (t - 2) u v) (r_index t u v)))) c = Some c'
           \<and> shell_filled (\<lambda>t u v. t < M + 1) M (shell_value PCx PCy PCz Boys N prev) len c'"
proof (rule for_le_rule[where I = "\<lambda>i. shell_filled (\<lambda>t u v. t < i) M
       (shell_value PCx PCy PCz Boys N prev) len"])
  show "1 \<le> M + 1" using M by simp
  show "shell_filled (\<lambda>t u v. t < 1) M (shell_value PCx PCy PCz Boys N prev) len c"
    by (rule c)
next
  fix t s
  assume t: "1 \<le> t" "t \<le> M"
    and s: "shell_filled (\<lambda>t' u v. t' < t) M (shell_value PCx PCy PCz Boys N prev) len s"
  have "\<exists>s'. for_le 0 (M - t) (\<lambda>u. for_le 0 (M - t - u) (\<lambda>v.
                  CoulombRLayer_entry PCx t prev
                    (r_index (t - 1) u v) (r_index (t - 2) u v) (r_index t u v))) s = Some s'
      \<and> shell_filled (\<lambda>t' u' v'. t' < t \<or> t' = t \<and> u' < M - t + 1) M
           (shell_value PCx PCy PCz Boys N prev) len s'"
  proof (rule for_le_rule[where I = "\<lambda>i. shell_filled (\<lambda>t' u' v'. t' < t \<or> t' = t \<and> u' < i) M
       (shell_value PCx PCy PCz Boys N prev) len"])
    show "0 \<le> M - t + 1" using t by simp
    show "shell_filled (\<lambda>t' u' v'. t' < t \<or> t' = t \<and> u' < 0) M
            (shell_value PCx PCy PCz Boys N prev) len s"
      by (rule shell_filled_weaken[OF s]) auto
  next
    fix u s1
    assume u: "0 \<le> u" "u \<le> M - t"
      and s1: "shell_filled (\<lambda>t' u' v'. t' < t \<or> t' = t \<and> u' < u) M
            (shell_value PCx PCy PCz Boys N prev) len s1"
    have "\<exists>s'. for_le 0 (M - t - u) (\<lambda>v. CoulombRLayer_entry PCx t prev
                    (r_index (t - 1) u v) (r_index (t - 2) u v) (r_index t u v)) s1 = Some s'
        \<and> shell_filled (\<lambda>t' u' v'. t' < t \<or> t' = t \<and> (u' < u \<or> u' = u \<and> v' < M - t - u + 1)) M
             (shell_value PCx PCy PCz Boys N prev) len s'"
    proof (rule for_le_rule[where I = "\<lambda>i. shell_filled
         (\<lambda>t' u' v'. t' < t \<or> t' = t \<and> (u' < u \<or> u' = u \<and> v' < i)) M
         (shell_value PCx PCy PCz Boys N prev) len"])
      show "0 \<le> M - t - u + 1" using u by simp
      show "shell_filled (\<lambda>t' u' v'. t' < t \<or> t' = t \<and> (u' < u \<or> u' = u \<and> v' < 0)) M
              (shell_value PCx PCy PCz Boys N prev) len s1"
        by (rule shell_filled_weaken[OF s1]) auto
    next
      fix v s2
      assume "0 \<le> v" "v \<le> M - t - u"
        and "shell_filled (\<lambda>t' u' v'. t' < t \<or> t' = t \<and> (u' < u \<or> u' = u \<and> v' < v)) M
              (shell_value PCx PCy PCz Boys N prev) len s2"
      then show "\<exists>s'. CoulombRLayer_entry PCx t prev
                         (r_index (t - 1) u v) (r_index (t - 2) u v) (r_index t u v) s2 = Some s'
          \<and> shell_filled (\<lambda>t' u' v'. t' < t \<or> t' = t \<and> (u' < u \<or> u' = u \<and> v' < v + 1)) M
              (shell_value PCx PCy PCz Boys N prev) len s'"
        using lens t u by (intro entry_step_x) auto
    qed
    then obtain s' where s': "for_le 0 (M - t - u) (\<lambda>v. CoulombRLayer_entry PCx t prev
                    (r_index (t - 1) u v) (r_index (t - 2) u v) (r_index t u v)) s1 = Some s'"
      "shell_filled (\<lambda>t' u' v'. t' < t \<or> t' = t \<and> (u' < u \<or> u' = u \<and> v' < M - t - u + 1)) M
             (shell_value PCx PCy PCz Boys N prev) len s'" by blast
    have "shell_filled (\<lambda>t' u' v'. t' < t \<or> t' = t \<and> u' < u + 1) M
            (shell_value PCx PCy PCz Boys N prev) len s'"
      by (rule shell_filled_weaken[OF s'(2)]) auto
    with s'(1) show "\<exists>s'. for_le 0 (M - t - u) (\<lambda>v. CoulombRLayer_entry PCx t prev
                    (r_index (t - 1) u v) (r_index (t - 2) u v) (r_index t u v)) s1 = Some s'
        \<and> shell_filled (\<lambda>t' u' v'. t' < t \<or> t' = t \<and> u' < u + 1) M
             (shell_value PCx PCy PCz Boys N prev) len s'"
      by blast
  qed
  then obtain s' where s': "for_le 0 (M - t) (\<lambda>u. for_le 0 (M - t - u) (\<lambda>v.
                  CoulombRLayer_entry PCx t prev
                    (r_index (t - 1) u v) (r_index (t - 2) u v) (r_index t u v))) s = Some s'"
      "shell_filled (\<lambda>t' u' v'. t' < t \<or> t' = t \<and> u' < M - t + 1) M
           (shell_value PCx PCy PCz Boys N prev) len s'" by blast
  have "shell_filled (\<lambda>t' u' v'. t' < t + 1) M (shell_value PCx PCy PCz Boys N prev) len s'"
    by (rule shell_filled_weaken[OF s'(2)]) auto
  with s'(1) show "\<exists>s'. for_le 0 (M - t) (\<lambda>u. for_le 0 (M - t - u) (\<lambda>v.
                  CoulombRLayer_entry PCx t prev
                    (r_index (t - 1) u v) (r_index (t - 2) u v) (r_index t u v))) s = Some s'
      \<and> shell_filled (\<lambda>t' u' v'. t' < t + 1) M (shell_value PCx PCy PCz Boys N prev) len s'"
    by blast
qed

lemma clear_loop:
  assumes "0 \<le> n" "n \<le> int (length c)"
  shows "\<exists>c'. for_lt 0 n (\<lambda>i curr_buf. arr_set curr_buf i 0) c = Some c' \<and> length c' = length c"
  using assms
  by (intro for_lt_rule[where I = "\<lambda>i c'. length c' = length c"]) (simp_all add: arr_set_def)

lemma CoulombRLayer_step_shell:
  assumes N: "0 \<le> N" "N < L" "N < int (length Boys)"
    and lens: "tetrahedral (L - N - 1) \<le> int (length prev)" "tetrahedral (L - N) \<le> int (length c0)"
  shows "\<exists>c. CoulombRLayer_step L PCx PCy PCz Boys N (c0, prev) = Some (prev, c)
           \<and> shell_filled (\<lambda>t u v. True) (L - N) (shell_value PCx PCy PCz Boys N prev) (length c0) c"
proof -
  let ?M = "L - N"
  let ?val = "shell_value PCx PCy PCz Boys N prev"
  let ?len = "length c0"
  have M: "0 \<le> ?M" "1 \<le> ?M" using N by simp_all
  have tet: "0 \<le> tetrahedral ?M" using M by (intro tetrahedral_nonneg) simp
  have pos: "1 \<le> tetrahedral ?M"
    using tetrahedral_mono[of 0 ?M] M by (simp add: tetrahedral_def)
  from clear_loop[OF tet lens(2)]
  obtain c1 where c1: "for_lt 0 (tetrahedral ?M) (\<lambda>i curr_buf. arr_set curr_buf i 0) c0 = Some c1"
    "length c1 = ?len" by blast
  have b: "arr_get Boys N = Some (Boys ! nat N)" using N by (simp add: arr_get_in)
  have c2: "arr_set c1 0 (Boys ! nat N) = Some (c1[nat 0 := Boys ! nat N])"
    using c1(2) pos lens(2) by (intro arr_set_in; linarith)
  have l0: "0 < length c1" using c1(2) pos lens(2) by linarith
  have f2: "shell_filled (\<lambda>t u v. t = 0 \<and> u = 0 \<and> v < 1) ?M ?val ?len (c1[nat 0 := Boys ! nat N])"
    unfolding shell_filled_def
  proof (intro conjI allI impI)
    show "length (c1[nat 0 := Boys ! nat N]) = ?len" using c1(2) by simp
  next
    fix t u v :: int
    assume "0 \<le> t \<and> 0 \<le> u \<and> 0 \<le> v \<and> t + u + v \<le> ?M \<and> t = 0 \<and> u = 0 \<and> v < 1"
    then have z: "t = 0" "u = 0" "v = 0" by simp_all
    show "c1[nat 0 := Boys ! nat N] ! nat (r_index t u v) = ?val t u v"
      using l0 by (simp add: z shell_value_def)
  qed
  have lens': "tetrahedral (?M - 1) \<le> int (length prev)" "tetrahedral ?M \<le> int ?len"
    using lens by simp_all
  from z_loop[OF f2 M(1) lens']
  obtain c3 where c3: "for_le 1 ?M (\<lambda>v. CoulombRLayer_entry PCz v prev
                    (r_index 0 0 (v - 1)) (r_index 0 0 (v - 2)) (r_index 0 0 v)) (c1[nat 0 := Boys ! nat N]) = Some c3"
    "shell_filled (\<lambda>t u v. t = 0 \<and> u = 0 \<and> v < ?M + 1) ?M ?val ?len c3" by blast
  have f3: "shell_filled (\<lambda>t u v. t = 0 \<and> u < 1) ?M ?val ?len c3"
    by (rule shell_filled_weaken[OF c3(2)]) auto
  from y_loop[OF f3 M(1) lens']
  obtain c4 where c4: "for_le 1 ?M (\<lambda>u. for_le 0 (?M - u) (\<lambda>v. CoulombRLayer_entry PCy u prev
                    (r_index 0 (u - 1) v) (r_index 0 (u - 2) v) (r_index 0 u v))) c3 = Some c4"
    "shell_filled (\<lambda>t u v. t = 0 \<and> u < ?M + 1) ?M ?val ?len c4" by blast
  have f4: "shell_filled (\<lambda>t u v. t < 1) ?M ?val ?len c4"
    by (rule shell_filled_weaken[OF c4(2)]) auto
  from x_loop[OF f4 M(1) lens']
  obtain c5 where c5: "for_le 1 ?M (\<lambda>t. for_le 0 (?M - t) (\<lambda>u. for_le 0 (?M - t - u) (\<lambda>v.
                  CoulombRLayer_entry PCx t prev
                    (r_index (t - 1) u v) (r_index (t - 2) u v) (r_index t u v)))) c4 = Some c5"
    "shell_filled (\<lambda>t u v. t < ?M + 1) ?M ?val ?len c5" by blast
  have f5: "shell_filled (\<lambda>t u v. True) ?M ?val ?len c5"
    by (rule shell_filled_weaken[OF c5(2)]) auto
  have "CoulombRLayer_step L PCx PCy PCz Boys N (c0, prev) = Some (prev, c5)"
    unfolding CoulombRLayer_step_def using c1(1) b c2 c3(1) c4(1) c5(1)
    by (simp add: Let_def)
  with f5 show ?thesis by blast
qed


lemma CoulombR_negative:
  "t < 0 \<or> u < 0 \<or> v < 0 \<Longrightarrow> CoulombR t u v N PCx PCy PCz Boys = Some 0"
  by (subst CoulombR.simps) auto

lemma CoulombR_base:
  "0 \<le> N \<Longrightarrow> CoulombR 0 0 0 N PCx PCy PCz Boys = arr_get Boys N"
  by (subst CoulombR.simps) simp

lemma shell_value_CoulombR:
  assumes prev: "shell_matches PCx PCy PCz Boys (M - 1) (N + 1) prev"
    and N: "0 \<le> N" "N < int (length Boys)"
    and tuv: "0 \<le> t" "0 \<le> u" "0 \<le> v" "t + u + v \<le> M"
  shows "CoulombR t u v N PCx PCy PCz Boys = Some (shell_value PCx PCy PCz Boys N prev t u v)"
proof -
  have pv: "CoulombR t' u' v' (N + 1) PCx PCy PCz Boys = Some (prev ! nat (r_index t' u' v'))"
    if "0 \<le> t'" "0 \<le> u'" "0 \<le> v'" "t' + u' + v' \<le> M - 1" for t' u' v'
    using prev that by (simp add: shell_matches_def)
  consider (x) "0 < t" | (y) "t = 0" "0 < u" | (z) "t = 0" "u = 0" "0 < v" | (b) "t = 0" "u = 0" "v = 0"
    using tuv by linarith
  then show ?thesis
  proof cases
    case x
    have a: "CoulombR (t - 1) u v (N + 1) PCx PCy PCz Boys = Some (prev ! nat (r_index (t - 1) u v))"
      using x tuv by (intro pv) simp_all
    have b: "CoulombR (t - 2) u v (N + 1) PCx PCy PCz Boys
               = Some (if 1 < t then prev ! nat (r_index (t - 2) u v) else 0)"
    proof (cases "1 < t")
      case True
      then show ?thesis using tuv pv[of "t - 2" u v] by simp
    next
      case False
      then show ?thesis using x by (simp add: CoulombR_negative)
    qed
    show ?thesis
      using x tuv N by (subst CoulombR.simps) (simp add: a b shell_value_def Let_def)
  next
    case y
    have a: "CoulombR 0 (u - 1) v (N + 1) PCx PCy PCz Boys = Some (prev ! nat (r_index 0 (u - 1) v))"
      using y tuv by (intro pv) simp_all
    have b: "CoulombR 0 (u - 2) v (N + 1) PCx PCy PCz Boys
               = Some (if 1 < u then prev ! nat (r_index 0 (u - 2) v) else 0)"
    proof (cases "1 < u")
      case True
      then show ?thesis using y tuv pv[of 0 "u - 2" v] by simp
    next
      case False
      then show ?thesis using y by (simp add: CoulombR_negative)
    qed
    show ?thesis
      using y tuv N by (subst CoulombR.simps) (simp add: a b shell_value_def Let_def)
  next
    case z
    have a: "CoulombR 0 0 (v - 1) (N + 1) PCx PCy PCz Boys = Some (prev ! nat (r_index 0 0 (v - 1)))"
      using z tuv by (intro pv) simp_all
    have b: "CoulombR 0 0 (v - 2) (N + 1) PCx PCy PCz Boys
               = Some (if 1 < v then prev ! nat (r_index 0 0 (v - 2)) else 0)"
    proof (cases "1 < v")
      case True
      then show ?thesis using z tuv pv[of 0 0 "v - 2"] by simp
    next
      case False
      then show ?thesis using z by (simp add: CoulombR_negative)
    qed
    show ?thesis
      using z tuv N by (subst CoulombR.simps) (simp add: a b shell_value_def Let_def)
  next
    case b
    then show ?thesis using N by (simp add: CoulombR_base arr_get_in shell_value_def)
  qed
qed

lemma CoulombRLayer_step_matches:
  assumes N: "0 \<le> N" "N < L" "N < int (length Boys)"
    and lens: "tetrahedral (L - N) \<le> int (length c0)" "length prev = length c0"
    and prev: "shell_matches PCx PCy PCz Boys (L - N - 1) (N + 1) prev"
  shows "\<exists>c. CoulombRLayer_step L PCx PCy PCz Boys N (c0, prev) = Some (prev, c)
           \<and> length c = length c0 \<and> shell_matches PCx PCy PCz Boys (L - N) N c"
proof -
  have "tetrahedral (L - N - 1) \<le> tetrahedral (L - N)" using N by (intro tetrahedral_mono) simp_all
  then have lp: "tetrahedral (L - N - 1) \<le> int (length prev)" using lens by simp
  from CoulombRLayer_step_shell[OF N lp lens(1), of PCx PCy PCz]
  obtain c where c: "CoulombRLayer_step L PCx PCy PCz Boys N (c0, prev) = Some (prev, c)"
    "shell_filled (\<lambda>t u v. True) (L - N) (shell_value PCx PCy PCz Boys N prev) (length c0) c"
    by blast
  have "shell_matches PCx PCy PCz Boys (L - N) N c"
    unfolding shell_matches_def
  proof (intro allI impI)
    fix t u v assume a: "0 \<le> t \<and> 0 \<le> u \<and> 0 \<le> v \<and> t + u + v \<le> L - N"
    then have "c ! nat (r_index t u v) = shell_value PCx PCy PCz Boys N prev t u v"
      using c(2) by (simp add: shell_filled_def)
    moreover have "CoulombR t u v N PCx PCy PCz Boys = Some (shell_value PCx PCy PCz Boys N prev t u v)"
      using a N prev by (intro shell_value_CoulombR[where M = "L - N"]) simp_all
    ultimately show "CoulombR t u v N PCx PCy PCz Boys = Some (c ! nat (r_index t u v))" by simp
  qed
  with c show ?thesis by (auto simp: shell_filled_def)
qed

lemma MAX_R_SIZE_val [simp]: "MAX_R_SIZE = 969"
  by (simp add: MAX_R_SIZE_def MAX_R_L_def tetrahedral_def)

lemma tetrahedral_le_MAX_R_SIZE: "- 1 \<le> M \<Longrightarrow> M \<le> MAX_R_L \<Longrightarrow> tetrahedral M \<le> MAX_R_SIZE"
  unfolding MAX_R_SIZE_def by (intro tetrahedral_mono) simp_all

lemma shell_matches_single:
  assumes "0 \<le> N" "N < int (length Boys)" "0 < length buf" "buf ! 0 = Boys ! nat N"
  shows "shell_matches PCx PCy PCz Boys 0 N buf"
  unfolding shell_matches_def
proof (intro allI impI)
  fix t u v :: int assume "0 \<le> t \<and> 0 \<le> u \<and> 0 \<le> v \<and> t + u + v \<le> 0"
  then have "t = 0" "u = 0" "v = 0" by simp_all
  then show "CoulombR t u v N PCx PCy PCz Boys = Some (buf ! nat (r_index t u v))"
    using assms by (simp add: CoulombR_base arr_get_in)
qed

lemma CoulombRLayer_init_shell:
  assumes "0 \<le> L" "L < int (length Boys)"
  shows "\<exists>c p. CoulombRLayer_init L Boys = Some (c, p) \<and> length c = nat MAX_R_SIZE
           \<and> length p = nat MAX_R_SIZE \<and> p ! 0 = Boys ! nat L
           \<and> shell_matches PCx PCy PCz Boys 0 L p"
proof -
  have "shell_matches PCx PCy PCz Boys 0 L ((zero_array MAX_R_SIZE)[nat 0 := Boys ! nat L])"
    using assms by (intro shell_matches_single) simp_all
  then show ?thesis
    using assms unfolding CoulombRLayer_init_def
    by (simp add: arr_get_in arr_set_def Let_def) (simp add: zero_array_def)
qed

lemma CoulombRLayer_compute_matches:
  assumes "0 \<le> L" "L \<le> MAX_R_L" "L < int (length Boys)"
  shows "\<exists>R. CoulombRLayer_compute L PCx PCy PCz Boys = Some R \<and> length R = nat MAX_R_SIZE
           \<and> shell_matches PCx PCy PCz Boys L 0 R"
proof (cases "L = 0")
  case True
  have "shell_matches PCx PCy PCz Boys 0 0 ((zero_array MAX_R_SIZE)[nat 0 := Boys ! nat 0])"
    using assms True by (intro shell_matches_single) simp_all
  then show ?thesis
    using assms True unfolding CoulombRLayer_compute_def
    by (simp add: arr_get_in arr_set_def MAX_R_L_def)
next
  case False
  from CoulombRLayer_init_shell[OF assms(1,3), of PCx PCy PCz]
  obtain c p where init: "CoulombRLayer_init L Boys = Some (c, p)" "length c = nat MAX_R_SIZE"
    "length p = nat MAX_R_SIZE" "shell_matches PCx PCy PCz Boys 0 L p" by blast
  let ?I = "\<lambda>i s. length (fst s) = nat MAX_R_SIZE \<and> length (snd s) = nat MAX_R_SIZE
              \<and> shell_matches PCx PCy PCz Boys (L - (i + 1)) (i + 1) (snd s)"
  have "\<exists>s'. for_down (L - 1) 0 (CoulombRLayer_step L PCx PCy PCz Boys) (c, p) = Some s'
          \<and> ?I (0 - 1) s'"
  proof (rule for_down_rule[where I = ?I])
    show "0 - 1 \<le> L - 1" using assms by simp
    show "?I (L - 1) (c, p)" using init by simp
  next
    fix i and s :: "Vec8d list \<times> Vec8d list"
    assume i: "0 \<le> i" "i \<le> L - 1" and s: "?I i s"
    obtain c0 prev where cp: "s = (c0, prev)" by (cases s)
    have t: "tetrahedral (L - i) \<le> int (length c0)"
      using tetrahedral_le_MAX_R_SIZE[of "L - i"] i assms s cp by simp
    have "\<exists>c'. CoulombRLayer_step L PCx PCy PCz Boys i (c0, prev) = Some (prev, c')
           \<and> length c' = length c0 \<and> shell_matches PCx PCy PCz Boys (L - i) i c'"
      using i assms s cp t by (intro CoulombRLayer_step_matches) (simp_all add: algebra_simps)
    then show "\<exists>s'. CoulombRLayer_step L PCx PCy PCz Boys i s = Some s' \<and> ?I (i - 1) s'"
      using s cp by auto
  qed
  then obtain s' where s': "for_down (L - 1) 0 (CoulombRLayer_step L PCx PCy PCz Boys) (c, p) = Some s'"
    "length (snd s') = nat MAX_R_SIZE" "shell_matches PCx PCy PCz Boys L 0 (snd s')" by auto
  have "CoulombRLayer_compute L PCx PCy PCz Boys = Some (snd s')"
    using assms False init(1) s'(1) unfolding CoulombRLayer_compute_def by simp
  with s' show ?thesis by blast
qed

section \<open>Properties of the evaluators\<close>

lemma layer_matches_nth:
  "layer_matches nA nB PA PB p r \<Longrightarrow> 0 \<le> t \<Longrightarrow> t < MAX_T \<Longrightarrow> r ! nat t = HermiteE nA nB t PA PB p"
  by (simp add: layer_matches_def)

lemma layer_matches_length: "layer_matches nA nB PA PB p r \<Longrightarrow> length r = nat MAX_T"
  by (simp add: layer_matches_def)

lemma arr_get_nth:
  "0 \<le> i \<Longrightarrow> i < int (length a) \<Longrightarrow> a ! nat i = x \<Longrightarrow> arr_get a i = Some x"
  by (simp add: arr_get_def)

lemma HermiteE_1_1_0: "HermiteE 1 1 0 PA PB p = PA * PB + 0.5 / p"
proof -
  have a: "HermiteE 0 1 0 PA PB p = PB"
    using HermiteE_step_B[of 1 0 PA PB p] by (simp add: HermiteE_base)
  have b: "HermiteE 0 1 1 PA PB p = 0.5 / p"
    using HermiteE_step_B[of 1 1 PA PB p] by (simp add: HermiteE_base)
  show ?thesis
    using HermiteE_step_A[of 1 1 0 PA PB p] by (simp add: a b)
qed

lemma CoulombR_1_0_0_0:
  assumes "1 < int (length Boys)"
  shows "CoulombR 1 0 0 0 PCx PCy PCz Boys = Some (PCx * Boys ! 1)"
proof -
  have a: "CoulombR 0 0 0 1 PCx PCy PCz Boys = Some (Boys ! 1)"
    using assms by (simp add: CoulombR_base arr_get_def)
  have b: "CoulombR (- 1) 0 0 1 PCx PCy PCz Boys = Some 0"
    by (simp add: CoulombR_negative)
  show ?thesis by (subst CoulombR.simps) (simp add: a b)
qed

text \<open>
  Claim C1. For every \<open>(nA, nB, t)\<close> with \<open>t \<le> nA + nB \<le> 8\<close> and every geometry
  \<open>(PA, PB, p)\<close> with \<open>p \<noteq> 0\<close>, \<^verbatim>\<open>HermiteELayer<nA,nB>::compute\<close> returns (every access in
  bounds) and its entry \<open>t\<close> is the value of the unmemoized recursion
  \<^verbatim>\<open>HermiteE<nA,nB,t>::compute\<close>, in exact arithmetic.
\<close>

theorem HermiteELayer_matches_HermiteE:
  assumes "0 \<le> nA" "0 \<le> nB" "0 \<le> t" "t \<le> nA + nB" "nA + nB \<le> 8" "p \<noteq> 0"
  shows "\<exists>layer. HermiteELayer_compute nA nB PA PB p = Some layer
           \<and> arr_get layer t = Some (HermiteE nA nB t PA PB p)"
proof -
  from HermiteELayer_A_chain[of nA nB PA PB p] assms
  obtain layer where l: "HermiteELayer_compute nA nB PA PB p = Some layer"
    "layer_matches nA nB PA PB p layer" by auto
  have "arr_get layer t = Some (HermiteE nA nB t PA PB p)"
    using l(2) assms by (intro arr_get_nth) (simp_all add: layer_matches_def)
  with l(1) show ?thesis by blast
qed

theorem HermiteELayer_matches_HermiteE_witness:
  "\<exists>layer. HermiteELayer_compute 2 1 1 2 4 = Some layer
           \<and> arr_get layer 3 = Some (HermiteE 2 1 3 1 2 4)"
  by (rule HermiteELayer_matches_HermiteE[where nA = 2 and nB = 1 and t = 3 and p = 4]; simp)

text \<open>
  Claim C2. For every \<open>(t, u, v)\<close> with \<open>t + u + v \<le> 8\<close>, every displacement and every
  Boys table with at least \<open>t + u + v + 1\<close> entries, \<^verbatim>\<open>CoulombRLayer<t+u+v>::compute\<close> returns and
  its entry at offset \<open>r_index t u v\<close> is the value of the unmemoized recursion
  \<^verbatim>\<open>CoulombR<t,u,v,0>::compute\<close> over the same table, in exact arithmetic.
\<close>

theorem CoulombRLayer_matches_CoulombR:
  assumes "0 \<le> t" "0 \<le> u" "0 \<le> v" "t + u + v \<le> 8" "t + u + v < int (length Boys)"
  shows "\<exists>R x. CoulombRLayer_compute (t + u + v) PCx PCy PCz Boys = Some R
           \<and> arr_get R (r_index t u v) = Some x
           \<and> CoulombR t u v 0 PCx PCy PCz Boys = Some x"
proof -
  have L: "0 \<le> t + u + v" "t + u + v \<le> MAX_R_L" using assms by (simp_all add: MAX_R_L_def)
  from CoulombRLayer_compute_matches[OF L assms(5), of PCx PCy PCz]
  obtain R where R: "CoulombRLayer_compute (t + u + v) PCx PCy PCz Boys = Some R"
    "length R = nat MAX_R_SIZE" "shell_matches PCx PCy PCz Boys (t + u + v) 0 R" by blast
  have n: "CoulombR t u v 0 PCx PCy PCz Boys = Some (R ! nat (r_index t u v))"
    using R(3) assms by (simp add: shell_matches_def)
  have b: "0 \<le> r_index t u v" "r_index t u v < tetrahedral (t + u + v)"
    using assms by (simp_all add: r_index_bounds)
  have "tetrahedral (t + u + v) \<le> MAX_R_SIZE" using L by (intro tetrahedral_le_MAX_R_SIZE) simp_all
  then have "arr_get R (r_index t u v) = Some (R ! nat (r_index t u v))"
    using b R(2) by (intro arr_get_in) simp_all
  with R(1) n show ?thesis by blast
qed

theorem CoulombRLayer_matches_CoulombR_witness:
  "\<exists>R x. CoulombRLayer_compute (1 + 2 + 1) 1 2 3 [1, 2, 3, 4, 5] = Some R
           \<and> arr_get R (r_index 1 2 1) = Some x
           \<and> CoulombR 1 2 1 0 1 2 3 [1, 2, 3, 4, 5] = Some x"
  by (rule CoulombRLayer_matches_CoulombR; simp)

text \<open>
  Claim C4. For every valid \<open>(nA, nB, t)\<close> with \<open>t \<le> nA + nB\<close> and all inputs with
  \<open>p \<noteq> 0\<close>, the two nuclear-position derivatives cancel:
  \<^verbatim>\<open>HermiteDerivA<nA,nB,t>::compute\<close> \<open>+\<close> \<^verbatim>\<open>HermiteDerivB<nA,nB,t>::compute\<close> \<open>= 0\<close> in exact
  arithmetic (translational invariance).
\<close>

theorem Hermite_translational_invariance:
  assumes "0 \<le> nA" "0 \<le> nB" "0 \<le> t" "t \<le> nA + nB" "p \<noteq> 0"
  shows "HermiteDerivA nA nB t PA PB p alpha_A alpha_B
           + HermiteDerivB nA nB t PA PB p alpha_A alpha_B = 0"
  by (simp add: HermiteDerivA_def HermiteDerivB_def Let_def algebra_simps)

theorem Hermite_translational_invariance_witness:
  "HermiteDerivA 2 1 1 (1/2) (-1/3) 2 3 5 + HermiteDerivB 2 1 1 (1/2) (-1/3) 2 3 5 = 0"
  by (rule Hermite_translational_invariance; simp)

text \<open>
  Claim C5. For every \<open>(nA, nB)\<close> with \<open>0 \<le> nA, nB \<le> 4\<close>, every entry of the array returned
  by \<^verbatim>\<open>HermiteELayer<nA,nB>::compute\<close> at an index \<open>i\<close> with \<open>nA + nB < i < MAX_T\<close> is zero: a read
  of the previous layer one index past its degree yields zero and is not an error.
\<close>

theorem HermiteELayer_zero_beyond_degree:
  assumes "0 \<le> nA" "nA \<le> 4" "0 \<le> nB" "nB \<le> 4" "nA + nB < i" "i < MAX_T"
  shows "\<exists>layer. HermiteELayer_compute nA nB PA PB p = Some layer \<and> arr_get layer i = Some 0"
proof -
  from HermiteELayer_A_chain[of nA nB PA PB p] assms
  obtain layer where l: "HermiteELayer_compute nA nB PA PB p = Some layer"
    "layer_matches nA nB PA PB p layer" by auto
  have "HermiteE nA nB i PA PB p = 0" using assms by (intro HermiteE_outside) simp
  then have "arr_get layer i = Some 0"
    using l(2) assms by (intro arr_get_nth) (simp_all add: layer_matches_def)
  with l(1) show ?thesis by blast
qed

theorem HermiteELayer_zero_beyond_degree_witness:
  "\<exists>layer. HermiteELayer_compute 2 3 1 2 4 = Some layer \<and> arr_get layer 7 = Some 0"
  by (rule HermiteELayer_zero_beyond_degree[where nA = 2 and nB = 3 and i = 7]; simp)

text \<open>
  Claim C6. For every in-range request every array access of the layered evaluators is in
  bounds. Since every subscript is checked against the length of the array it addresses, an
  evaluation returns \<open>Some\<close> exactly when all its accesses were inside the arrays given to it.
  Hermite-E (\<open>0 \<le> nA, nB \<le> 4\<close>): \<^verbatim>\<open>compute\<close> returns on its arrays of \<open>MAX_T\<close> entries, and the
  statements that fill \<^verbatim>\<open>result\<close> succeed with a previous layer of \<open>MAX_T\<close> entries and a
  result array of only \<open>nA + nB + 1\<close> entries (\<open>nB + 1\<close> on the B side), where
  \<open>nA + nB < MAX_T\<close>: they read below \<open>MAX_T\<close> and write at indices up to \<open>nA + nB\<close>, the top
  index included. Coulomb-R (\<open>0 \<le> L_total \<le> 16\<close>, a Boys table of at least \<open>L_total + 1\<close>
  entries): \<^verbatim>\<open>compute\<close> returns, and iteration \<open>N\<close> succeeds already when \<^verbatim>\<open>prev\<close> has exactly
  \<open>tetrahedral (L_total - N - 1)\<close> entries and \<^verbatim>\<open>curr\<close> exactly \<open>tetrahedral (L_total - N)\<close>
  \<open>\<le> MAX_R_SIZE\<close> entries: every read of the \<open>N + 1\<close> shell and every write stays below
  these offsets.
\<close>

theorem layered_accesses_in_bounds:
  assumes "0 \<le> nA" "nA \<le> 4" "0 \<le> nB" "nB \<le> 4"
    and "length prev_layer = nat MAX_T"
    and "length result_A = nat (nA + nB + 1)" "length result_B = nat (nB + 1)"
    and "0 \<le> L" "L \<le> 16" "L < int (length Boys)"
    and "length prev = nat (tetrahedral (L - N - 1))" "length curr_buf = nat (tetrahedral (L - N))"
  shows "(\<exists>layer. HermiteELayer_compute nA nB PA PB p = Some layer)
       \<and> nA + nB < MAX_T
       \<and> (0 < nA \<longrightarrow> (\<exists>r. HermiteELayer_fill_A nA nB PA inv2p prev_layer result_A = Some r))
       \<and> (0 < nB \<longrightarrow> (\<exists>r. HermiteELayer_fill_B nB PB inv2p prev_layer result_B = Some r))
       \<and> (\<exists>R. CoulombRLayer_compute L PCx PCy PCz Boys = Some R)
       \<and> (0 \<le> N \<and> N < L \<longrightarrow>
            tetrahedral (L - N) \<le> MAX_R_SIZE
            \<and> (\<exists>s. CoulombRLayer_step L PCx PCy PCz Boys N (curr_buf, prev) = Some s))"
proof (intro conjI impI)
  show "\<exists>layer. HermiteELayer_compute nA nB PA PB p = Some layer"
    using HermiteELayer_A_chain[of nA nB PA PB p] assms(1-4) by auto
next
  show "nA + nB < MAX_T" using assms(1-4) by simp
next
  assume "0 < nA"
  then show "\<exists>r. HermiteELayer_fill_A nA nB PA inv2p prev_layer result_A = Some r"
    using HermiteELayer_fill_A_filled[of nA nB "nA + nB" prev_layer result_A PA inv2p] assms(1-6)
    by auto
next
  assume "0 < nB"
  then show "\<exists>r. HermiteELayer_fill_B nB PB inv2p prev_layer result_B = Some r"
    using HermiteELayer_fill_B_filled[of nB prev_layer result_B PB inv2p] assms(1-5,7) by auto
next
  have "0 \<le> L" "L \<le> MAX_R_L" using assms by (simp_all add: MAX_R_L_def)
  from CoulombRLayer_compute_matches[OF this assms(10), of PCx PCy PCz]
  show "\<exists>R. CoulombRLayer_compute L PCx PCy PCz Boys = Some R" by blast
next
  assume "0 \<le> N \<and> N < L"
  then show "tetrahedral (L - N) \<le> MAX_R_SIZE"
    using assms(8,9) by (intro tetrahedral_le_MAX_R_SIZE) (simp_all add: MAX_R_L_def)
next
  assume N: "0 \<le> N \<and> N < L"
  have n: "0 \<le> tetrahedral (L - N - 1)" "0 \<le> tetrahedral (L - N)"
    using N by (simp_all add: tetrahedral_nonneg)
  have NB: "N < int (length Boys)" using N assms(10) by simp
  have "\<exists>c. CoulombRLayer_step L PCx PCy PCz Boys N (curr_buf, prev) = Some (prev, c)
           \<and> shell_filled (\<lambda>t u v. True) (L - N) (shell_value PCx PCy PCz Boys N prev) (length curr_buf) c"
    using N n assms(11,12) by (intro CoulombRLayer_step_shell NB) simp_all
  then show "\<exists>s. CoulombRLayer_step L PCx PCy PCz Boys N (curr_buf, prev) = Some s" by blast
qed

theorem layered_accesses_in_bounds_witness:
  "(\<exists>layer. HermiteELayer_compute 4 4 1 2 4 = Some layer)
       \<and> 4 + 4 < MAX_T
       \<and> (\<exists>r. HermiteELayer_fill_A 4 4 1 (1/8) (zero_array 9) (zero_array 9) = Some r)
       \<and> (\<exists>r. HermiteELayer_fill_B 4 2 (1/8) (zero_array 9) (zero_array 5) = Some r)
       \<and> (\<exists>R. CoulombRLayer_compute 3 1 2 3 [5, 6, 7, 8] = Some R)
       \<and> tetrahedral 2 \<le> MAX_R_SIZE
       \<and> (\<exists>s. CoulombRLayer_step 3 1 2 3 [5, 6, 7, 8] 1
                 (zero_array (tetrahedral 2), zero_array (tetrahedral 1)) = Some s)"
  using layered_accesses_in_bounds[where nA = 4 and nB = 4 and L = 3 and N = 1
      and Boys = "[5, 6, 7, 8]" and prev_layer = "zero_array 9" and result_A = "zero_array 9"
      and result_B = "zero_array 5" and prev = "zero_array (tetrahedral 1)"
      and curr_buf = "zero_array (tetrahedral 2)" and PA = 1 and PB = 2 and p = 4
      and inv2p = "1/8" and PCx = 1 and PCy = 2 and PCz = 3]
  by simp

text \<open>
  Claim C7. The base cases hold exactly. The Hermite-E layer \<open>(0, 0)\<close> has entry \<open>0\<close> equal
  to \<open>1\<close> for all geometry inputs. For every \<open>M \<ge> 0\<close> inside the Boys table the per-value
  recursion \<^verbatim>\<open>CoulombR<0,0,0,M>\<close> returns \<open>Boys[M]\<close>. For every \<open>L_total\<close> from \<open>0\<close> to
  \<open>MAX_R_L\<close> and every Boys table of at least \<open>L_total + 1\<close> entries, entry
  \<open>r_index 0 0 0 = 0\<close> of each shell the layered Coulomb-R evaluator builds is the Boys value
  of that shell's auxiliary order: the initial shell (order \<open>L_total\<close>), the shell built by
  iteration \<open>N\<close> (for every \<open>0 \<le> N < L_total\<close>, on the evaluator's arrays of \<open>MAX_R_SIZE\<close>
  entries), and the returned shell (order \<open>0\<close>; this includes the specialisation for
  \<open>L_total = 0\<close>).
\<close>

theorem base_cases:
  assumes "0 \<le> M" "M < int (length Boys)"
    and "0 \<le> L" "L \<le> MAX_R_L" "L < int (length Boys)"
  shows "(\<exists>layer. HermiteELayer_compute 0 0 PA PB p = Some layer \<and> arr_get layer 0 = Some 1)
       \<and> r_index 0 0 0 = 0
       \<and> CoulombR 0 0 0 M PCx PCy PCz Boys = Some (Boys ! nat M)
       \<and> (\<exists>c0 p0. CoulombRLayer_init L Boys = Some (c0, p0)
             \<and> arr_get p0 (r_index 0 0 0) = Some (Boys ! nat L))
       \<and> (0 \<le> N \<and> N < L \<and> length curr_buf = nat MAX_R_SIZE \<and> length prev = nat MAX_R_SIZE \<longrightarrow>
            (\<exists>c. CoulombRLayer_step L PCx PCy PCz Boys N (curr_buf, prev) = Some (prev, c)
               \<and> arr_get c (r_index 0 0 0) = Some (Boys ! nat N)))
       \<and> (\<exists>R. CoulombRLayer_compute L PCx PCy PCz Boys = Some R
             \<and> arr_get R (r_index 0 0 0) = Some (Boys ! nat 0))"
proof (intro conjI impI)
  from HermiteELayer_base[of PA PB p]
  obtain layer where l: "HermiteELayer_compute 0 0 PA PB p = Some layer"
    "layer_matches 0 0 PA PB p layer" by blast
  have "arr_get layer 0 = Some 1"
    using layer_matches_nth[OF l(2), of 0] layer_matches_length[OF l(2)]
    by (intro arr_get_nth) (simp_all add: HermiteE_base)
  with l(1) show "\<exists>layer. HermiteELayer_compute 0 0 PA PB p = Some layer \<and> arr_get layer 0 = Some 1"
    by blast
next
  show "r_index 0 0 0 = 0" by simp
next
  show "CoulombR 0 0 0 M PCx PCy PCz Boys = Some (Boys ! nat M)"
    using assms(1,2) by (simp add: CoulombR_base arr_get_in)
next
  from CoulombRLayer_init_shell[OF assms(3,5), of PCx PCy PCz]
  obtain c0 p0 where i: "CoulombRLayer_init L Boys = Some (c0, p0)" "length p0 = nat MAX_R_SIZE"
    "p0 ! 0 = Boys ! nat L" by blast
  have "arr_get p0 (r_index 0 0 0) = Some (Boys ! nat L)"
    using i(2,3) by (intro arr_get_nth) simp_all
  with i(1) show "\<exists>c0 p0. CoulombRLayer_init L Boys = Some (c0, p0)
             \<and> arr_get p0 (r_index 0 0 0) = Some (Boys ! nat L)" by blast
next
  assume a: "0 \<le> N \<and> N < L \<and> length curr_buf = nat MAX_R_SIZE \<and> length prev = nat MAX_R_SIZE"
  then have N: "0 \<le> N" "N < L" and len: "length curr_buf = nat MAX_R_SIZE"
    "length prev = nat MAX_R_SIZE" by simp_all
  have NB: "N < int (length Boys)" using N assms(5) by simp
  have t1: "tetrahedral (L - N - 1) \<le> int (length prev)"
    using tetrahedral_le_MAX_R_SIZE[of "L - N - 1"] N len assms(4) by simp
  have t2: "tetrahedral (L - N) \<le> int (length curr_buf)"
    using tetrahedral_le_MAX_R_SIZE[of "L - N"] N len assms(4) by simp
  from CoulombRLayer_step_shell[OF N NB t1 t2, of PCx PCy PCz]
  obtain c where c: "CoulombRLayer_step L PCx PCy PCz Boys N (curr_buf, prev) = Some (prev, c)"
    "shell_filled (\<lambda>t u v. True) (L - N) (shell_value PCx PCy PCz Boys N prev) (length curr_buf) c"
    by blast
  have "c ! nat (r_index 0 0 0) = shell_value PCx PCy PCz Boys N prev 0 0 0"
    using c(2) N(2) unfolding shell_filled_def by (elim conjE allE[of _ 0]) simp
  then have "arr_get c (r_index 0 0 0) = Some (Boys ! nat N)"
    using c(2) len(1) by (intro arr_get_nth) (simp_all add: shell_filled_def shell_value_def)
  with c(1) show "\<exists>c. CoulombRLayer_step L PCx PCy PCz Boys N (curr_buf, prev) = Some (prev, c)
             \<and> arr_get c (r_index 0 0 0) = Some (Boys ! nat N)" by blast
next
  from CoulombRLayer_compute_matches[OF assms(3-5), of PCx PCy PCz]
  obtain R where R: "CoulombRLayer_compute L PCx PCy PCz Boys = Some R"
    "length R = nat MAX_R_SIZE" "shell_matches PCx PCy PCz Boys L 0 R" by blast
  have "CoulombR 0 0 0 0 PCx PCy PCz Boys = Some (R ! nat (r_index 0 0 0))"
    using R(3) assms(3) by (simp add: shell_matches_def)
  moreover have "arr_get Boys 0 = Some (Boys ! nat 0)"
    using assms(3,5) by (intro arr_get_in; linarith)
  ultimately have "R ! nat 0 = Boys ! nat 0"
    by (simp add: CoulombR_base)
  then have "arr_get R (r_index 0 0 0) = Some (Boys ! nat 0)"
    using R(2) by (intro arr_get_nth) simp_all
  with R(1) show "\<exists>R. CoulombRLayer_compute L PCx PCy PCz Boys = Some R
             \<and> arr_get R (r_index 0 0 0) = Some (Boys ! nat 0)" by blast
qed

theorem base_cases_witness:
  "(\<exists>layer. HermiteELayer_compute 0 0 1 2 4 = Some layer \<and> arr_get layer 0 = Some 1)
       \<and> r_index 0 0 0 = 0
       \<and> CoulombR 0 0 0 2 1 2 3 [5, 6, 7, 8] = Some 7
       \<and> (\<exists>c0 p0. CoulombRLayer_init 3 [5, 6, 7, 8] = Some (c0, p0)
             \<and> arr_get p0 (r_index 0 0 0) = Some 8)
       \<and> (\<exists>c. CoulombRLayer_step 3 1 2 3 [5, 6, 7, 8] 1 (zero_array MAX_R_SIZE, zero_array MAX_R_SIZE)
                 = Some (zero_array MAX_R_SIZE, c)
             \<and> arr_get c (r_index 0 0 0) = Some 6)
       \<and> (\<exists>R. CoulombRLayer_compute 3 1 2 3 [5, 6, 7, 8] = Some R
             \<and> arr_get R (r_index 0 0 0) = Some 5)"
proof -
  have n: "[5, 6, 7, 8 :: Vec8d] ! nat 2 = 7" "[5, 6, 7, 8 :: Vec8d] ! nat 3 = 8"
    "[5, 6, 7, 8 :: Vec8d] ! nat 1 = 6" "[5, 6, 7, 8 :: Vec8d] ! nat 0 = 5"
    by (simp_all add: numeral_2_eq_2 numeral_3_eq_3)
  have h: "(0::int) \<le> 2" "(2::int) < int (length [5, 6, 7, 8 :: Vec8d])" "(0::int) \<le> 3"
    "(3::int) \<le> MAX_R_L" "(3::int) < int (length [5, 6, 7, 8 :: Vec8d])"
    by (simp_all add: MAX_R_L_def)
  have g: "(0::int) \<le> 1 \<and> (1::int) < 3
      \<and> length (zero_array MAX_R_SIZE) = nat MAX_R_SIZE
      \<and> length (zero_array MAX_R_SIZE) = nat MAX_R_SIZE" by simp
  from base_cases[OF h, where N = 1 and curr_buf = "zero_array MAX_R_SIZE"
      and prev = "zero_array MAX_R_SIZE" and PA = 1 and PB = 2 and p = 4
      and PCx = 1 and PCy = 2 and PCz = 3]
  show ?thesis unfolding n using g by blast
qed

text \<open>
  The specialisation for \<open>L_total = 0\<close> on a table of a single entry, evaluated directly.
\<close>

lemma CoulombRLayer_compute_0_single_entry:
  "CoulombRLayer_compute 0 PCx PCy PCz [b] = Some ((zero_array MAX_R_SIZE)[0 := b])"
  "arr_get ((zero_array MAX_R_SIZE)[0 := b]) (r_index 0 0 0) = Some b"
  by (simp_all add: CoulombRLayer_compute_def arr_get_def arr_set_def MAX_R_L_def zero_array_def)

text \<open>
  Claim C8. For \<open>PA = 0.5\<close>, \<open>PB = -0.3\<close>, \<open>p = 2.0\<close> the layered Hermite-E evaluator yields
  \<open>E^{1,1}_0 = PA * PB + 1/(2p) = 0.10\<close>: entry \<open>0\<close> of \<^verbatim>\<open>HermiteELayer<1,1>::compute\<close>, in exact
  arithmetic.
\<close>

theorem HermiteELayer_1_1_scenario:
  "\<exists>layer. HermiteELayer_compute 1 1 0.5 (- 0.3) 2.0 = Some layer \<and> arr_get layer 0 = Some 0.10"
proof -
  from HermiteELayer_A_chain[of 1 1 "0.5" "- 0.3" "2.0"]
  obtain layer where l: "HermiteELayer_compute 1 1 0.5 (- 0.3) 2.0 = Some layer"
    "layer_matches 1 1 0.5 (- 0.3) 2.0 layer" by auto
  have v: "HermiteE 1 1 0 0.5 (- 0.3) 2.0 = 0.10" by (simp add: HermiteE_1_1_0)
  have "layer ! nat 0 = HermiteE 1 1 0 0.5 (- 0.3) 2.0" "0 < int (length layer)"
    using layer_matches_nth[OF l(2), of 0] layer_matches_length[OF l(2)] by simp_all
  then have "arr_get layer 0 = Some 0.10"
    unfolding v by (intro arr_get_nth) simp_all
  with l(1) show ?thesis by blast
qed

text \<open>
  Claim C9. For \<open>PCx = 0.5\<close>, \<open>PCy = 0.3\<close>, \<open>PCz = 0.2\<close> and the Boys table \<open>[1,1,1,1,1]\<close>
  the array returned by \<^verbatim>\<open>CoulombRLayer<1>::compute\<close> has entry \<open>r_index 0 0 0\<close> equal to \<open>1\<close>
  and entry \<open>r_index 1 0 0\<close> equal to \<open>PCx * Boys[1] = 0.5\<close>.
\<close>

theorem CoulombRLayer_1_scenario:
  "\<exists>R. CoulombRLayer_compute 1 0.5 0.3 0.2 [1, 1, 1, 1, 1] = Some R
          \<and> arr_get R (r_index 0 0 0) = Some 1
          \<and> arr_get R (r_index 1 0 0) = Some 0.5"
proof -
  let ?Boys = "[1, 1, 1, 1, 1] :: Vec8d list"
  from CoulombRLayer_compute_matches[of 1 ?Boys "0.5" "0.3" "0.2"]
  obtain R where R: "CoulombRLayer_compute 1 0.5 0.3 0.2 ?Boys = Some R"
    "length R = nat MAX_R_SIZE" "shell_matches 0.5 0.3 0.2 ?Boys 1 0 R"
    by (auto simp: MAX_R_L_def)
  have i: "r_index 1 0 0 = 1" by (simp add: r_index_def tetrahedral_def triangular_def)
  have "CoulombR 0 0 0 0 0.5 0.3 0.2 ?Boys = Some (R ! nat (r_index 0 0 0))"
    using R(3) by (simp add: shell_matches_def)
  then have r0: "R ! 0 = 1" by (simp add: CoulombR_base arr_get_def)
  have "CoulombR 1 0 0 0 0.5 0.3 0.2 ?Boys = Some (R ! nat (r_index 1 0 0))"
    using R(3) by (simp add: shell_matches_def)
  then have r1: "R ! 1 = 0.5" by (simp add: CoulombR_1_0_0_0 i)
  have "arr_get R (r_index 0 0 0) = Some 1" "arr_get R (r_index 1 0 0) = Some 0.5"
    using R(2) r0 r1 by (simp_all add: arr_get_def i)
  with R(1) show ?thesis by blast
qed

text \<open>
  Claim C10. The two layered Hermite-E implementations agree: for \<open>0 \<le> nA, nB \<le> 4\<close>,
  \<open>t \<le> nA + nB\<close>, \<open>p \<noteq> 0\<close> and a caller's buffer of more than \<open>nA + nB\<close> entries, the
  generated \<^verbatim>\<open>HermiteECoeffLayer<nA,nB>::compute\<close> (uniform recurrence at the top index, reading
  a zero-padded \<^verbatim>\<open>prev[t+1]\<close>) writes to \<^verbatim>\<open>out[t]\<close> the value that
  \<^verbatim>\<open>HermiteELayer<nA,nB>::compute\<close> (top index special-cased) holds at index \<open>t\<close>.
\<close>

theorem HermiteECoeffLayer_matches_HermiteELayer:
  assumes "0 \<le> nA" "nA \<le> 4" "0 \<le> nB" "nB \<le> 4" "0 \<le> t" "t \<le> nA + nB" "p \<noteq> 0"
    and "nA + nB < int (length out)"
  shows "\<exists>out' layer x. HermiteECoeffLayer_compute nA nB out PA PB p = Some out'
           \<and> HermiteELayer_compute nA nB PA PB p = Some layer
           \<and> arr_get out' t = Some x \<and> arr_get layer t = Some x"
proof -
  from HermiteELayer_A_chain[of nA nB PA PB p] assms
  obtain layer where l: "HermiteELayer_compute nA nB PA PB p = Some layer"
    "layer_matches nA nB PA PB p layer" by auto
  from HermiteECoeffLayer_A_chain[of nA nB out PA PB p] assms
  obtain out' where o: "HermiteECoeffLayer_compute nA nB out PA PB p = Some out'"
    "coeff_layer nA nB PA PB p out out'" by auto
  have "arr_get layer t = Some (HermiteE nA nB t PA PB p)"
    using l(2) assms by (intro arr_get_nth) (simp_all add: layer_matches_def)
  moreover have "arr_get out' t = Some (HermiteE nA nB t PA PB p)"
    using o(2) assms by (intro arr_get_nth) (simp_all add: coeff_layer_def)
  ultimately show ?thesis using l(1) o(1) by blast
qed

theorem HermiteECoeffLayer_matches_HermiteELayer_witness:
  "\<exists>out' layer x. HermiteECoeffLayer_compute 2 2 (zero_array 5) 1 2 4 = Some out'
           \<and> HermiteELayer_compute 2 2 1 2 4 = Some layer
           \<and> arr_get out' 4 = Some x \<and> arr_get layer 4 = Some x"
  by (rule HermiteECoeffLayer_matches_HermiteELayer[where nA = 2 and nB = 2 and t = 4 and p = 4]; simp)

end
